theory Spec2Isabelle
  imports Complex_Main
begin

section \<open>Text\<close>

text \<open>
  The program is \<^verbatim>\<open>scripts/verify-pdf.py\<close>. A Python \<^verbatim>\<open>str\<close> is modelled as a
  \<^typ>\<open>string\<close>: a list of characters, each read as one of the code points U+0000 to
  U+00FF. The predicates below are Python's \<^verbatim>\<open>str.isspace\<close>, the classes \<^verbatim>\<open>\d\<close>,
  \<^verbatim>\<open>\s\<close> and \<^verbatim>\<open>\w\<close> of the \<^verbatim>\<open>re\<close> module on a \<^verbatim>\<open>str\<close> pattern, all restricted to
  that range, and the case variants of the ASCII letters, which are the only letters the
  patterns of the program name.
\<close>

definition code :: "char \<Rightarrow> int" where
  "code c = of_char c"

definition is_digit :: "char \<Rightarrow> bool" where
  "is_digit c = (48 \<le> code c \<and> code c \<le> 57)"

definition is_space :: "char \<Rightarrow> bool" where
  "is_space c = (let n = code c in
     (9 \<le> n \<and> n \<le> 13) \<or> (28 \<le> n \<and> n \<le> 32) \<or> n = 133 \<or> n = 160)"

definition is_upper_ascii :: "char \<Rightarrow> bool" where
  "is_upper_ascii c = (65 \<le> code c \<and> code c \<le> 90)"

definition is_lower_ascii :: "char \<Rightarrow> bool" where
  "is_lower_ascii c = (97 \<le> code c \<and> code c \<le> 122)"

definition is_word :: "char \<Rightarrow> bool" where
  "is_word c = (let n = code c in
     is_digit c \<or> is_upper_ascii c \<or> is_lower_ascii c \<or> n = 95
     \<or> n = 170 \<or> n = 178 \<or> n = 179 \<or> n = 181 \<or> n = 185 \<or> n = 186
     \<or> (188 \<le> n \<and> n \<le> 190) \<or> (192 \<le> n \<and> n \<le> 214)
     \<or> (216 \<le> n \<and> n \<le> 246) \<or> 248 \<le> n)"

definition lower_char :: "char \<Rightarrow> char" where
  "lower_char c = (if is_upper_ascii c then char_of (code c + 32) else c)"

definition upper_char :: "char \<Rightarrow> char" where
  "upper_char c = (if is_lower_ascii c then char_of (code c - 32) else c)"

text \<open>\<^verbatim>\<open>s.strip()\<close>: leading and trailing whitespace removed.\<close>

definition strip :: "string \<Rightarrow> string" where
  "strip s = rev (dropWhile is_space (rev (dropWhile is_space s)))"

section \<open>Regular expressions\<close>

text \<open>
  The patterns of the program use literals, character sets, alternation, and the
  quantifiers \<^verbatim>\<open>*\<close>, \<^verbatim>\<open>+\<close>, \<^verbatim>\<open>?\<close>, \<^verbatim>\<open>{m,n}\<close> applied to one character or one
  character set. \<^verbatim>\<open>re\<close> is a backtracking matcher: alternatives are tried from left to
  right, a greedy quantifier tries the largest count first, and the first way that lets
  the whole pattern match is taken. \<open>rmatch\<close> lists, in that order, what is left of
  the input after each way an expression can match a prefix of it.
\<close>

datatype citem = Chr char | Rng char char | Dig | Spc | Wrd

type_synonym cset = "citem list"

fun imatch :: "citem \<Rightarrow> char \<Rightarrow> bool" where
  "imatch (Chr a) c = (c = a)"
| "imatch (Rng a b) c = (code a \<le> code c \<and> code c \<le> code b)"
| "imatch Dig c = is_digit c"
| "imatch Spc c = is_space c"
| "imatch Wrd c = is_word c"

text \<open>
  With \<^verbatim>\<open>re.IGNORECASE\<close> (the flag \<open>ic\<close>) a character matches when one of its case
  variants does.
\<close>

definition cmatch :: "bool \<Rightarrow> cset \<Rightarrow> char \<Rightarrow> bool" where
  "cmatch ic cs c =
     list_ex (\<lambda>i. imatch i c \<or> (ic \<and> (imatch i (lower_char c) \<or> imatch i (upper_char c)))) cs"

datatype rx =
    Lit string
  | Rep cset nat "nat option"
  | Cat rx rx
  | Or rx rx

definition lit_match :: "bool \<Rightarrow> string \<Rightarrow> string \<Rightarrow> bool" where
  "lit_match ic l s =
     (length l \<le> length s \<and> list_all2 (\<lambda>a c. cmatch ic [Chr a] c) l (take (length l) s))"

fun rmatch :: "bool \<Rightarrow> rx \<Rightarrow> string \<Rightarrow> string list" where
  "rmatch ic (Lit l) s = (if lit_match ic l s then [drop (length l) s] else [])"
| "rmatch ic (Rep cs m n) s =
     (let k = length (takeWhile (cmatch ic cs) s);
          hi = (case n of None \<Rightarrow> k | Some n' \<Rightarrow> min k n')
      in map (\<lambda>j. drop j s) (rev [m ..< Suc hi]))"
| "rmatch ic (Cat a b) s = concat (map (rmatch ic b) (rmatch ic a s))"
| "rmatch ic (Or a b) s = rmatch ic a s @ rmatch ic b s"

text \<open>The quantifiers and the one-character match, and n-ary sequence and alternation.\<close>

definition one :: "cset \<Rightarrow> rx" where "one cs = Rep cs 1 (Some 1)"
definition opt :: "cset \<Rightarrow> rx" where "opt cs = Rep cs 0 (Some 1)"
definition star :: "cset \<Rightarrow> rx" where "star cs = Rep cs 0 None"
definition plus :: "cset \<Rightarrow> rx" where "plus cs = Rep cs 1 None"

fun seq :: "rx list \<Rightarrow> rx" where
  "seq [] = Lit []"
| "seq [r] = r"
| "seq (r # rs) = Cat r (seq rs)"

fun alts :: "rx list \<Rightarrow> rx" where
  "alts [] = Rep [] 1 (Some 1)"
| "alts [r] = r"
| "alts (r # rs) = Or r (alts rs)"

text \<open>
  Every pattern of the program is a prefix followed by its single capture group, which
  ends the pattern: a pattern is the pair of the two. \<open>pmatch\<close> lists the matches at
  the start of the input as (text of group 1, rest of the input).
\<close>

type_synonym pattern = "rx \<times> rx"

definition pmatch :: "bool \<Rightarrow> pattern \<Rightarrow> string \<Rightarrow> (string \<times> string) list" where
  "pmatch ic p s =
     concat (map (\<lambda>s1. map (\<lambda>s2. (take (length s1 - length s2) s1, s2)) (rmatch ic (snd p) s1))
                 (rmatch ic (fst p) s))"

text \<open>\<^verbatim>\<open>re.search(p, s).group(1)\<close>: the leftmost match; \<open>None\<close> when there is none.\<close>

fun re_search :: "bool \<Rightarrow> pattern \<Rightarrow> string \<Rightarrow> string option" where
  "re_search ic p [] = (case pmatch ic p [] of [] \<Rightarrow> None | (g, _) # _ \<Rightarrow> Some g)"
| "re_search ic p (c # cs) =
     (case pmatch ic p (c # cs) of [] \<Rightarrow> re_search ic p cs | (g, _) # _ \<Rightarrow> Some g)"

text \<open>
  \<^verbatim>\<open>re.findall(p, s)\<close> with one group: group 1 of the successive non-overlapping
  matches, the scan resuming where the last match ended. \<open>skip\<close> counts the characters
  of the current match still to pass over. No pattern of the program matches the empty
  string.
\<close>

fun findall_from :: "bool \<Rightarrow> pattern \<Rightarrow> nat \<Rightarrow> string \<Rightarrow> string list" where
  "findall_from ic p skip [] = []"
| "findall_from ic p (Suc k) (c # cs) = findall_from ic p k cs"
| "findall_from ic p 0 (c # cs) =
     (case pmatch ic p (c # cs) of
        [] \<Rightarrow> findall_from ic p 0 cs
      | (g, rest) # _ \<Rightarrow> g # findall_from ic p (length cs - length rest) cs)"

definition re_findall :: "bool \<Rightarrow> pattern \<Rightarrow> string \<Rightarrow> string list" where
  "re_findall ic p s = findall_from ic p 0 s"

section \<open>Invoice number\<close>

definition sp :: rx where "sp = star [Spc]"
definition label_sep :: rx where "label_sep = star [Chr CHR '':'', Spc]"
definition AZ09 :: cset where "AZ09 = [Rng CHR ''A'' CHR ''Z'', Rng CHR ''0'' CHR ''9'']"
definition dashAZ09 :: cset where "dashAZ09 = Chr CHR ''-'' # AZ09"

definition invoice_patterns :: "pattern list" where
  "invoice_patterns =
    [ (Cat (alts [Lit ''Invoice'', Lit ''Inv'', seq [Lit ''Invoice'', sp, Lit ''#''],
                  seq [Lit ''Invoice'', sp, Lit ''Number''],
                  seq [Lit ''Invoice'', sp, Lit ''No'', opt [Chr CHR ''.'']]]) label_sep,
       Cat (one AZ09) (Rep dashAZ09 3 None)),
      (Cat (alts [Lit ''Order'', seq [Lit ''Order'', sp, Lit ''#''],
                  seq [Lit ''Order'', sp, Lit ''Number'']]) label_sep,
       Cat (one AZ09) (Rep dashAZ09 3 None)),
      (Cat (alts [Lit ''Reference'', Lit ''Ref'', seq [Lit ''Ref'', sp, Lit ''#'']]) label_sep,
       Cat (one AZ09) (Rep dashAZ09 3 None)),
      (Cat (Lit ''#'') sp,
       Cat (one AZ09) (Rep dashAZ09 5 None)) ]"

text \<open>The loop over the patterns: the first one that matches anywhere returns.\<close>

fun first_search :: "pattern list \<Rightarrow> string \<Rightarrow> string option" where
  "first_search [] text = None"
| "first_search (p # ps) text =
     (case re_search True p text of
        Some g \<Rightarrow> Some (strip g)
      | None \<Rightarrow> first_search ps text)"

definition parse_invoice_number :: "string \<Rightarrow> string option" where
  "parse_invoice_number text = first_search invoice_patterns text"

section \<open>Decimal\<close>

text \<open>
  A \<^verbatim>\<open>decimal.Decimal\<close> is a signed coefficient and an exponent, \<open>Dec c e\<close> standing
  for \<open>c * 10 ^ e\<close>; comparisons of decimals are comparisons of these values.
\<close>

datatype decimal = Dec int int

fun dval :: "decimal \<Rightarrow> rat" where
  "dval (Dec c e) = (if 0 \<le> e then of_int (c * 10 ^ nat e) else of_int c / of_int (10 ^ nat (- e)))"

definition int_of_digits :: "string \<Rightarrow> int" where
  "int_of_digits ds = foldl (\<lambda>n c. 10 * n + (code c - 48)) 0 ds"

text \<open>
  \<^verbatim>\<open>Decimal(s)\<close> for a string of digits and dots, which is all the patterns below
  capture once the commas are removed: digits with at most one dot and at least one
  digit. \<open>None\<close> is \<^verbatim>\<open>InvalidOperation\<close>. (Signs, exponents, blanks and the special
  values, which \<^verbatim>\<open>Decimal\<close> accepts as well, cannot occur in such a string.)
\<close>

definition Decimal :: "string \<Rightarrow> decimal option" where
  "Decimal s =
     (let ip = takeWhile is_digit s; r = dropWhile is_digit s in
      case r of
        [] \<Rightarrow> if ip = [] then None else Some (Dec (int_of_digits ip) 0)
      | c # fp \<Rightarrow>
          if c = CHR ''.'' \<and> list_all is_digit fp \<and> (ip \<noteq> [] \<or> fp \<noteq> [])
          then Some (Dec (int_of_digits (ip @ fp)) (- int (length fp)))
          else None)"

text \<open>\<^verbatim>\<open>s.replace(',', '')\<close>\<close>

definition remove_commas :: "string \<Rightarrow> string" where
  "remove_commas s = filter (\<lambda>c. c \<noteq> CHR '','') s"

section \<open>Amount\<close>

definition total_label :: rx where
  "total_label = alts [Lit ''Total'', seq [Lit ''Amount'', sp, Lit ''Due''],
                       seq [Lit ''Grand'', sp, Lit ''Total''], seq [Lit ''Balance'', sp, Lit ''Due''],
                       seq [Lit ''Total'', sp, Lit ''Due'']]"

definition number_token :: rx where
  "number_token = seq [plus [Dig, Chr CHR '',''], opt [Chr CHR ''.''], star [Dig]]"

definition total_patterns :: "pattern list" where
  "total_patterns =
    [ (seq [total_label, label_sep, opt [Chr CHR ''$'']], number_token),
      (seq [total_label, label_sep, Lit ''US'', opt [Chr CHR ''D''], sp], number_token) ]"

definition currency_pattern :: pattern where
  "currency_pattern =
     (Cat (Lit ''$'') sp, seq [plus [Dig, Chr CHR '',''], one [Chr CHR ''.''], Rep [Dig] 2 (Some 2)])"

text \<open>
  The loop over the labelled patterns. A first match whose token \<^verbatim>\<open>Decimal\<close> rejects
  is passed over (\<^verbatim>\<open>except InvalidOperation: pass\<close>) and the next pattern is tried.
\<close>

fun labeled_total :: "pattern list \<Rightarrow> string \<Rightarrow> (string \<times> decimal) option" where
  "labeled_total [] text = None"
| "labeled_total (p # ps) text =
     (case re_search True p text of
        Some g \<Rightarrow>
          (case Decimal (remove_commas g) of
             Some d \<Rightarrow> Some (g, d)
           | None \<Rightarrow> labeled_total ps text)
      | None \<Rightarrow> labeled_total ps text)"

text \<open>The loop that collects the bare currency amounts, skipping those that do not parse.\<close>

fun collect_amounts :: "string list \<Rightarrow> (string \<times> decimal) list" where
  "collect_amounts [] = []"
| "collect_amounts (m # ms) =
     (case Decimal (remove_commas m) of
        Some d \<Rightarrow> (m, d) # collect_amounts ms
      | None \<Rightarrow> collect_amounts ms)"

text \<open>
  \<^verbatim>\<open>amounts.sort(key=lambda x: x[1], reverse=True)\<close>. Python's sort is stable, and a
  reversed sort keeps the original order of equal keys: it reverses the list, sorts it
  stably in ascending order and reverses the result.
\<close>

definition sort_desc :: "(string \<times> decimal) list \<Rightarrow> (string \<times> decimal) list" where
  "sort_desc amounts = rev (sort_key (\<lambda>x. dval (snd x)) (rev amounts))"

definition parse_amount :: "string \<Rightarrow> string option \<times> decimal option" where
  "parse_amount text =
     (case labeled_total total_patterns text of
        Some (s, d) \<Rightarrow> (Some s, Some d)
      | None \<Rightarrow>
          (let matches = re_findall False currency_pattern text in
           if matches \<noteq> [] then
             (let amounts = collect_amounts matches in
              if amounts \<noteq> [] then
                (case sort_desc amounts of
                   a # _ \<Rightarrow> (Some (fst a), Some (snd a))
                 | [] \<Rightarrow> (None, None))
              else (None, None))
           else (None, None)))"

section \<open>Date\<close>

text \<open>
  The date parser (\<^verbatim>\<open>dateutil.parser.parse\<close>) is an external library: it is a parameter
  of the model. It maps a string to a date-time, or raises (\<open>None\<close>). Of the date-time
  the program reads \<^verbatim>\<open>.year\<close> and \<^verbatim>\<open>int(parsed.timestamp())\<close>, which can raise as well
  (\<open>None\<close>). A date-time is never false in a condition.
\<close>

record datetime =
  year :: int
  timestamp :: "int option"

type_synonym dateparser = "string \<Rightarrow> datetime option"

definition date_label :: rx where
  "date_label = alts [seq [Lit ''Invoice'', sp, Lit ''Date''], Lit ''Date'', Lit ''Issued'']"

definition date_sep :: cset where
  "date_sep = [Chr CHR ''/'', Chr CHR ''-'']"

definition numeric_date :: "nat \<Rightarrow> rx" where
  "numeric_date ymin = seq [Rep [Dig] 1 (Some 2), one date_sep, Rep [Dig] 1 (Some 2), one date_sep,
                            Rep [Dig] ymin (Some 4)]"

definition month_name_date :: rx where
  "month_name_date = seq [plus [Wrd], plus [Spc], Rep [Dig] 1 (Some 2), opt [Chr CHR '',''],
                          plus [Spc], Rep [Dig] 4 (Some 4)]"

definition iso_date :: rx where
  "iso_date = seq [Rep [Dig] 4 (Some 4), one date_sep, Rep [Dig] 1 (Some 2), one date_sep,
                   Rep [Dig] 1 (Some 2)]"

definition date_patterns :: "pattern list" where
  "date_patterns =
    [ (Cat date_label label_sep, numeric_date 2),
      (Cat date_label label_sep, month_name_date),
      (Cat date_label label_sep, iso_date) ]"

definition generic_patterns :: "pattern list" where
  "generic_patterns =
    [ (Lit [], numeric_date 4),
      (Lit [], iso_date),
      (Lit [], month_name_date) ]"

text \<open>
  The loop over the labelled patterns. An exception of the parser or of
  \<^verbatim>\<open>timestamp()\<close> is swallowed (\<^verbatim>\<open>except: pass\<close>) and the next pattern is tried.
\<close>

fun labeled_date :: "dateparser \<Rightarrow> pattern list \<Rightarrow> string \<Rightarrow> (string \<times> int) option" where
  "labeled_date dp [] text = None"
| "labeled_date dp (p # ps) text =
     (case re_search True p text of
        Some date_str \<Rightarrow>
          (case dp date_str of
             Some parsed \<Rightarrow>
               (case timestamp parsed of
                  Some ts \<Rightarrow> Some (date_str, ts)
                | None \<Rightarrow> labeled_date dp ps text)
           | None \<Rightarrow> labeled_date dp ps text)
      | None \<Rightarrow> labeled_date dp ps text)"

text \<open>The inner loop over \<^verbatim>\<open>matches[:3]\<close>, with the bound on the year.\<close>

fun first_plausible :: "dateparser \<Rightarrow> string list \<Rightarrow> (string \<times> int) option" where
  "first_plausible dp [] = None"
| "first_plausible dp (date_str # rest) =
     (case dp date_str of
        Some parsed \<Rightarrow>
          if 2020 \<le> year parsed \<and> year parsed \<le> 2030 then
            (case timestamp parsed of
               Some ts \<Rightarrow> Some (date_str, ts)
             | None \<Rightarrow> first_plausible dp rest)
          else first_plausible dp rest
      | None \<Rightarrow> first_plausible dp rest)"

fun generic_date :: "dateparser \<Rightarrow> pattern list \<Rightarrow> string \<Rightarrow> (string \<times> int) option" where
  "generic_date dp [] text = None"
| "generic_date dp (p # ps) text =
     (case first_plausible dp (take 3 (re_findall False p text)) of
        Some r \<Rightarrow> Some r
      | None \<Rightarrow> generic_date dp ps text)"

text \<open>The first argument is \<open>None\<close> when the library is not installed (\<^verbatim>\<open>HAS_DATEUTIL\<close>).\<close>

definition parse_date :: "dateparser option \<Rightarrow> string \<Rightarrow> string option \<times> int option" where
  "parse_date dateutil text =
     (case dateutil of
        None \<Rightarrow> (None, None)
      | Some dp \<Rightarrow>
          (case labeled_date dp date_patterns text of
             Some (s, ts) \<Rightarrow> (Some s, Some ts)
           | None \<Rightarrow>
               (case generic_date dp generic_patterns text of
                  Some (s, ts) \<Rightarrow> (Some s, Some ts)
                | None \<Rightarrow> (None, None))))"

section \<open>Vendor\<close>

text \<open>\<^verbatim>\<open>text.split('\n')\<close>\<close>

fun split_on :: "char \<Rightarrow> string \<Rightarrow> string list" where
  "split_on d [] = [[]]"
| "split_on d (c # cs) =
     (if c = d then [] # split_on d cs
      else (case split_on d cs of l # ls \<Rightarrow> (c # l) # ls | [] \<Rightarrow> [[c]]))"

text \<open>
  \<^verbatim>\<open>re.match(p, s)\<close> tries the pattern at the start of the string only, where the
  anchor \<^verbatim>\<open>^\<close> of the vendor patterns always holds.
\<close>

definition re_match :: "bool \<Rightarrow> rx \<Rightarrow> string \<Rightarrow> bool" where
  "re_match ic r s = (rmatch ic r s \<noteq> [])"

definition skip_patterns :: "rx list" where
  "skip_patterns =
    [ Lit ''invoice'', Lit ''date'', seq [Lit ''bill'', sp, Lit ''to''],
      seq [Lit ''ship'', sp, Lit ''to''], one [Dig], Lit ''page'', Lit ''total'' ]"

fun vendor_lines :: "string list \<Rightarrow> string option" where
  "vendor_lines [] = None"
| "vendor_lines (l # ls) =
     (let line = strip l in
      if line = [] \<or> length line < 3 \<or> length line > 100 then vendor_lines ls
      else if list_ex (\<lambda>p. re_match True p line) skip_patterns then vendor_lines ls
      else if re_match False (one [Rng CHR ''A'' CHR ''Z'']) line \<and> length line \<ge> 3 then Some line
      else vendor_lines ls)"

definition parse_vendor :: "string \<Rightarrow> string option" where
  "parse_vendor text = vendor_lines (take 10 (split_on CHR 0x0A text))"

section \<open>Text acquisition\<close>

text \<open>
  The two engines (pdfplumber, and pdf2image with pytesseract) are external: the
  environment gives, for each, \<open>None\<close> when the library is not installed and otherwise
  what it yields on a path: \<open>None\<close> when it raises, else the text of each page
  (\<^verbatim>\<open>page.extract_text()\<close> may be \<^verbatim>\<open>None\<close>). Each function returns, beside its result,
  the calls made to the engines and the diagnostics printed.
\<close>

datatype event = Call_pdfplumber string | Call_ocr string | Diagnostic

record env =
  file_exists :: "string \<Rightarrow> bool"
  pdfplumber :: "(string \<Rightarrow> string option list option) option"
  ocr :: "(string \<Rightarrow> string list option) option"
  dateutil :: "dateparser option"

text \<open>\<^verbatim>\<open>"\n".join(parts)\<close>\<close>

fun join_nl :: "string list \<Rightarrow> string" where
  "join_nl [] = []"
| "join_nl [x] = x"
| "join_nl (x # xs) = x @ CHR 0x0A # join_nl xs"

text \<open>The page loop keeps a page's text when it is neither \<^verbatim>\<open>None\<close> nor empty.\<close>

fun page_texts :: "string option list \<Rightarrow> string list" where
  "page_texts [] = []"
| "page_texts (None # ps) = page_texts ps"
| "page_texts (Some t # ps) = (if t \<noteq> [] then t # page_texts ps else page_texts ps)"

definition extract_text_pdfplumber :: "env \<Rightarrow> string \<Rightarrow> string \<times> event list" where
  "extract_text_pdfplumber e pdf_path =
     (case pdfplumber e of
        None \<Rightarrow> ([], [])
      | Some engine \<Rightarrow>
          (case engine pdf_path of
             None \<Rightarrow> ([], [Call_pdfplumber pdf_path, Diagnostic])
           | Some pages \<Rightarrow> (join_nl (page_texts pages), [Call_pdfplumber pdf_path])))"

definition extract_text_ocr :: "env \<Rightarrow> string \<Rightarrow> string \<times> event list" where
  "extract_text_ocr e pdf_path =
     (case ocr e of
        None \<Rightarrow> ([], [])
      | Some engine \<Rightarrow>
          (case engine pdf_path of
             None \<Rightarrow> ([], [Call_ocr pdf_path, Diagnostic])
           | Some pages \<Rightarrow> (join_nl (page_texts (map Some pages)), [Call_ocr pdf_path])))"

datatype text_method = Pdfplumber | Ocr | NoMethod

definition extract_text :: "env \<Rightarrow> string \<Rightarrow> (string \<times> text_method) \<times> event list" where
  "extract_text e pdf_path =
     (let (text, ev1) = extract_text_pdfplumber e pdf_path in
      if length (strip text) \<ge> 50 then ((text, Pdfplumber), ev1)
      else
        (let (text', ev2) = extract_text_ocr e pdf_path in
         if strip text' \<noteq> [] then ((text', Ocr), ev1 @ ev2)
         else (([], NoMethod), ev1 @ ev2)))"

text \<open>
  The vocabulary of the properties of the unlabelled tier: a candidate is acceptable when
  the parser accepts it, its year lies in 2020..2030 and its timestamp can be taken; the
  candidates are the first three matches of each unlabelled pattern, in the order of
  \<open>generic_patterns\<close>.
\<close>

definition acceptable :: "dateparser \<Rightarrow> string \<Rightarrow> bool" where
  "acceptable dp s =
     (case dp s of
        Some d \<Rightarrow> 2020 \<le> year d \<and> year d \<le> 2030 \<and> timestamp d \<noteq> None
      | None \<Rightarrow> False)"

definition tier_b_candidates :: "string \<Rightarrow> string list" where
  "tier_b_candidates text =
     take 3 (re_findall False (Lit [], numeric_date 4) text)
     @ take 3 (re_findall False (Lit [], iso_date) text)
     @ take 3 (re_findall False (Lit [], month_name_date) text)"

section \<open>Floats\<close>

text \<open>
  A Python \<^verbatim>\<open>float\<close> is an IEEE 754 binary64 number. \<open>Flt m e\<close> stands for
  \<open>m * 2 ^ e\<close>, in the unique form with \<open>2^52 \<le> |m| < 2^53\<close> and \<open>- 1074 \<le> e \<le> 971\<close>
  (normal), or \<open>|m| < 2^52\<close> and \<open>e = - 1074\<close> (subnormal), or \<open>Flt 0 0\<close>. The program
  produces no NaN.
\<close>

datatype pyfloat = Flt int int | PInf | NInf

fun fval :: "pyfloat \<Rightarrow> rat" where
  "fval (Flt m e) = (if 0 \<le> e then of_int (m * 2 ^ nat e) else of_int m / of_int (2 ^ nat (- e)))"
| "fval PInf = 0"
| "fval NInf = 0"

text \<open>\<open>ilog b n\<close> is the integer logarithm: the largest \<open>k\<close> with \<open>b ^ k \<le> n\<close>, for \<open>n \<ge> 1\<close>.\<close>

function ilog :: "int \<Rightarrow> int \<Rightarrow> int" where
  "ilog b n = (if b < 2 \<or> n < b then 0 else 1 + ilog b (n div b))"
  by pat_completeness auto
termination
  by (relation "measure (\<lambda>(b, n). nat n)") (auto intro!: int_div_less_self)

text \<open>\<open>flog b p q\<close> is the largest \<open>k\<close> (of either sign) with \<open>b ^ k \<le> p / q\<close>, for positive \<open>p\<close>, \<open>q\<close>.\<close>

definition flog :: "int \<Rightarrow> int \<Rightarrow> int \<Rightarrow> int" where
  "flog b p q =
     (let d = ilog b p - ilog b q in
      if (if 0 \<le> d then q * b ^ nat d \<le> p else q \<le> p * b ^ nat (- d)) then d else d - 1)"

text \<open>\<open>p / q\<close> rounded to the nearest integer, a tie going to the even one (\<open>q > 0\<close>).\<close>

definition round_half_even :: "int \<Rightarrow> int \<Rightarrow> int" where
  "round_half_even p q =
     (let d = p div q; r = p mod q in
      if 2 * r < q then d else if q < 2 * r then d + 1 else if even d then d else d + 1)"

text \<open>
  The binary64 number nearest to \<open>p / q\<close> (\<open>p \<ge> 0\<close>, \<open>q > 0\<close>), ties to even; a result
  of \<open>2^1024\<close> or more is an overflow, given as \<open>PInf\<close>.
\<close>

definition double_of_ratio :: "int \<Rightarrow> int \<Rightarrow> pyfloat" where
  "double_of_ratio p q =
     (if p = 0 then Flt 0 0
      else
        (let e = max (flog 2 p q - 52) (- 1074);
             m = (if 0 \<le> e then round_half_even p (q * 2 ^ nat e)
                  else round_half_even (p * 2 ^ nat (- e)) q)
         in if m = 0 then Flt 0 0
            else if m = 2 ^ 53 then (if 971 \<le> e then PInf else Flt (2 ^ 52) (e + 1))
            else if 971 < e then PInf
            else Flt m e))"

fun fneg :: "pyfloat \<Rightarrow> pyfloat" where
  "fneg (Flt m e) = Flt (- m) e"
| "fneg PInf = NInf"
| "fneg NInf = PInf"

text \<open>\<^verbatim>\<open>float(d)\<close> for a decimal: correctly rounded; too large a value gives infinity.\<close>

fun float_of_decimal :: "decimal \<Rightarrow> pyfloat" where
  "float_of_decimal (Dec c e) =
     (let f = (if 0 \<le> e then double_of_ratio (\<bar>c\<bar> * 10 ^ nat e) 1
               else double_of_ratio \<bar>c\<bar> (10 ^ nat (- e)))
      in if c < 0 then fneg f else f)"

text \<open>
  \<^verbatim>\<open>Decimal(str(x))\<close> for a float. \<^verbatim>\<open>str\<close> writes the shortest decimal numeral that
  reads back as the same float, and of several the one nearest to the float's value.
  \<open>nearest_decimals p q n\<close> are the two decimals of \<open>n\<close> significant digits around
  \<open>p / q\<close>, the nearer first. The result is given up to its value (\<^verbatim>\<open>100.0\<close> as
  \<open>Dec 1 2\<close>): the program only computes with it. An infinite float gives an infinite
  decimal.
\<close>

definition nearest_decimals :: "int \<Rightarrow> int \<Rightarrow> int \<Rightarrow> decimal list" where
  "nearest_decimals p q n =
     (let k = flog 10 p q - (n - 1);
          num = (if 0 \<le> k then p else p * 10 ^ nat (- k));
          den = (if 0 \<le> k then q * 10 ^ nat k else q);
          lo = num div den;
          r = round_half_even num den
      in [Dec r k, Dec (if r = lo then lo + 1 else lo) k])"

definition exact_decimal :: "int \<Rightarrow> int \<Rightarrow> decimal" where
  "exact_decimal m e = (if 0 \<le> e then Dec (m * 2 ^ nat e) 0 else Dec (m * 5 ^ nat (- e)) e)"

definition shortest_decimal :: "int \<Rightarrow> int \<Rightarrow> decimal" where
  "shortest_decimal m e =
     (let p = (if 0 \<le> e then m * 2 ^ nat e else m);
          q = (if 0 \<le> e then 1 else 2 ^ nat (- e))
      in case find (\<lambda>d. float_of_decimal d = Flt m e)
                   (concat (map (nearest_decimals p q) [1, 2, 3, 4, 5, 6, 7, 8, 9, 10, 11, 12, 13, 14, 15, 16, 17])) of
           Some d \<Rightarrow> d
         | None \<Rightarrow> exact_decimal m e)"

datatype xdecimal = Finite decimal | Infinity | NegInfinity

fun dneg :: "decimal \<Rightarrow> decimal" where
  "dneg (Dec c e) = Dec (- c) e"

fun decimal_of_float_str :: "pyfloat \<Rightarrow> xdecimal" where
  "decimal_of_float_str (Flt m e) =
     (if m = 0 then Finite (Dec 0 0)
      else if m < 0 then Finite (dneg (shortest_decimal (- m) e))
      else Finite (shortest_decimal m e))"
| "decimal_of_float_str PInf = Infinity"
| "decimal_of_float_str NInf = NegInfinity"

section \<open>Decimal arithmetic\<close>

text \<open>The exceptions that the operations below can raise.\<close>

datatype error = ValueError | OverflowError | OSError | Overflow

text \<open>
  Subtraction and \<^verbatim>\<open>abs\<close> finish by fitting their exact result to the default
  context: precision 28, rounding half-even, \<open>Emax = 999999\<close>, \<open>Emin = - 999999\<close>, no
  clamping, and \<^verbatim>\<open>decimal.Overflow\<close> trapped (\<^verbatim>\<open>Underflow\<close>, \<^verbatim>\<open>Inexact\<close> and
  \<^verbatim>\<open>Rounded\<close> are not). \<open>Etiny\<close> is the least exponent of a result and \<open>Etop\<close> the
  greatest exponent of a result of full precision. Comparison is exact.
\<close>

definition Emax :: int where "Emax = 999999"
definition Etiny :: int where "Etiny = - Emax - 27"
definition Etop :: int where "Etop = Emax - 27"

fun dec_fix :: "decimal \<Rightarrow> error + decimal" where
  "dec_fix (Dec c e) =
     (if c = 0 then Inr (Dec 0 (min (max e Etiny) Emax))
      else
        (let exp_min = ilog 10 \<bar>c\<bar> + 1 + e - 28 in
         if Etop < exp_min then Inl Overflow
         else
           (let q = max exp_min Etiny in
            if e < q then
              (let m = round_half_even \<bar>c\<bar> (10 ^ nat (q - e));
                   m' = (if m = 10 ^ 28 then 10 ^ 27 else m);
                   q' = (if m = 10 ^ 28 then q + 1 else q)
               in if Etop < q' then Inl Overflow
                  else Inr (Dec (if c < 0 then - m' else m') q'))
            else Inr (Dec c e))))"

text \<open>A decimal that fits the context, which \<open>dec_fix\<close> leaves as it is.\<close>

fun in_context :: "decimal \<Rightarrow> bool" where
  "in_context (Dec c e) =
     (c \<noteq> 0 \<and> \<bar>c\<bar> < 10 ^ 28 \<and> Etiny \<le> e \<and> ilog 10 \<bar>c\<bar> + 1 + e - 28 \<le> Etop)"

fun dec_sub :: "decimal \<Rightarrow> decimal \<Rightarrow> error + decimal" where
  "dec_sub (Dec c1 e1) (Dec c2 e2) =
     (let e = min e1 e2 in dec_fix (Dec (c1 * 10 ^ nat (e1 - e) - c2 * 10 ^ nat (e2 - e)) e))"

fun dec_abs :: "decimal \<Rightarrow> error + decimal" where
  "dec_abs (Dec c e) = dec_fix (Dec \<bar>c\<bar> e)"

fun dec_less :: "decimal \<Rightarrow> decimal \<Rightarrow> bool" where
  "dec_less (Dec c1 e1) (Dec c2 e2) =
     (let e = min e1 e2 in c1 * 10 ^ nat (e1 - e) < c2 * 10 ^ nat (e2 - e))"

section \<open>Extraction coordinator\<close>

text \<open>The dictionary built by \<^verbatim>\<open>extract_invoice_data\<close>, a \<^verbatim>\<open>None\<close> value being \<open>None\<close>.\<close>

record extraction_result =
  pdf_file :: string
  extraction_method :: "text_method option"
  invoice_number :: "string option"
  date_string :: "string option"
  date_timestamp :: "int option"
  amount_string :: "string option"
  amount_decimal :: "pyfloat option"
  vendor :: "string option"
  raw_text_preview :: "string option"
  errors :: "string list"

definition empty_result :: "string \<Rightarrow> extraction_result" where
  "empty_result pdf_path =
     \<lparr> pdf_file = pdf_path, extraction_method = None, invoice_number = None, date_string = None,
       date_timestamp = None, amount_string = None, amount_decimal = None, vendor = None,
       raw_text_preview = None, errors = [] \<rparr>"

text \<open>A decimal is true in a condition when it is not zero.\<close>

fun decimal_truthy :: "decimal \<Rightarrow> bool" where
  "decimal_truthy (Dec c e) = (c \<noteq> 0)"

text \<open>\<^verbatim>\<open>float(amount) if amount else None\<close>\<close>

definition float_if_truthy :: "decimal option \<Rightarrow> pyfloat option" where
  "float_if_truthy amount =
     (case amount of
        None \<Rightarrow> None
      | Some d \<Rightarrow> if decimal_truthy d then Some (float_of_decimal d) else None)"

definition extract_invoice_data :: "env \<Rightarrow> string \<Rightarrow> extraction_result \<times> event list" where
  "extract_invoice_data e pdf_path =
     (let result = empty_result pdf_path in
      if \<not> file_exists e pdf_path then
        (result\<lparr>errors := errors result @ [''File not found: '' @ pdf_path]\<rparr>, [])
      else
        (let ((text, meth), evs) = extract_text e pdf_path;
             result = result\<lparr>extraction_method := Some meth,
                             raw_text_preview := (if text \<noteq> [] then Some (take 500 text) else None)\<rparr>
         in if text = [] then
              (result\<lparr>errors := errors result @ [''Could not extract text from PDF'']\<rparr>, evs)
            else
              (let (ds, dt) = parse_date (dateutil e) text;
                   (astr, amount) = parse_amount text
               in (result\<lparr>invoice_number := parse_invoice_number text,
                           date_string := ds, date_timestamp := dt,
                           amount_string := astr, amount_decimal := float_if_truthy amount,
                           vendor := parse_vendor text\<rparr>, evs))))"

section \<open>Reconciliation\<close>

text \<open>
  The bill record is a dictionary read with \<^verbatim>\<open>get\<close>: a missing key or a \<^verbatim>\<open>None\<close> is
  \<open>None\<close>. Its amount is a (finite) decimal and its date an integer of epoch seconds.
\<close>

record bill =
  BillNumber :: "string option"
  Amount :: "decimal option"
  BillDate :: "int option"

text \<open>
  \<^verbatim>\<open>s.upper()\<close> as a list of code points: on U+0000..U+00FF the letters a..z and
  U+00E0..U+00FE (but the division sign U+00F7) move down by 32, U+00DF becomes SS,
  U+00FF becomes U+0178 and U+00B5 becomes U+039C.
\<close>

definition upper_code :: "char \<Rightarrow> int list" where
  "upper_code c =
     (let n = code c in
      if (97 \<le> n \<and> n \<le> 122) \<or> (224 \<le> n \<and> n \<le> 254 \<and> n \<noteq> 247) then [n - 32]
      else if n = 223 then [83, 83]
      else if n = 255 then [376]
      else if n = 181 then [924]
      else [n])"

definition upper :: "string \<Rightarrow> int list" where
  "upper s = concat (map upper_code s)"

datatype pyvalue = PyNone | Str string | Float pyfloat

text \<open>
  An entry of the list returned. The \<^verbatim>\<open>message\<close> of the program, a sentence made of
  the two values, is left out.
\<close>

record issue =
  field :: string
  severity :: string
  pdf_value :: pyvalue
  bill_value :: pyvalue

text \<open>A float is true in a condition when it is not zero.\<close>

fun float_truthy :: "pyfloat \<Rightarrow> bool" where
  "float_truthy (Flt m e) = (m \<noteq> 0)"
| "float_truthy PInf = True"
| "float_truthy NInf = True"

text \<open>
  \<^verbatim>\<open>abs(pdf_amount - bill_amount) > Decimal('0.01')\<close>, the first amount possibly infinite
  (an infinity minus a finite decimal is that infinity, with no signal).
\<close>

fun amount_differs :: "xdecimal \<Rightarrow> decimal \<Rightarrow> error + bool" where
  "amount_differs (Finite a) b =
     (case dec_sub a b of
        Inl err \<Rightarrow> Inl err
      | Inr d \<Rightarrow>
          (case dec_abs d of
             Inl err \<Rightarrow> Inl err
           | Inr d' \<Rightarrow> Inr (dec_less (Dec 1 (- 2)) d')))"
| "amount_differs Infinity b = Inr True"
| "amount_differs NegInfinity b = Inr True"

fun xfloat :: "xdecimal \<Rightarrow> pyfloat" where
  "xfloat (Finite d) = float_of_decimal d"
| "xfloat Infinity = PInf"
| "xfloat NegInfinity = NInf"

text \<open>
  \<^verbatim>\<open>abs(pdf_ts - bill_ts) / 86400\<close>: the true division of two integers gives the
  nearest float, and raises \<^verbatim>\<open>OverflowError\<close> when that is out of range.
\<close>

definition diff_days :: "int \<Rightarrow> int \<Rightarrow> error + pyfloat" where
  "diff_days pdf_ts bill_ts =
     (case double_of_ratio \<bar>pdf_ts - bill_ts\<bar> 86400 of
        Flt m e \<Rightarrow> Inr (Flt m e)
      | _ \<Rightarrow> Inl OverflowError)"

text \<open>\<^verbatim>\<open>x > 1\<close> for a float \<open>x\<close>.\<close>

fun float_gt_one :: "pyfloat \<Rightarrow> bool" where
  "float_gt_one (Flt m e) = (if 0 \<le> e then 1 < m * 2 ^ nat e else 2 ^ nat (- e) < m)"
| "float_gt_one PInf = True"
| "float_gt_one NInf = False"

text \<open>
  \<^verbatim>\<open>datetime.fromtimestamp(ts).strftime('%Y-%m-%d')\<close> depends on the time zone of the
  platform: it is the parameter \<open>local_date\<close>, which gives the exception when
  \<^verbatim>\<open>fromtimestamp\<close> raises, as it does (\<^verbatim>\<open>ValueError\<close>, or \<^verbatim>\<open>OverflowError\<close> or \<^verbatim>\<open>OSError\<close>
  further out) when the local year is not in 1..9999.
\<close>

definition compare_invoice_number :: "extraction_result \<Rightarrow> bill \<Rightarrow> issue list" where
  "compare_invoice_number extracted b =
     (case (invoice_number extracted, BillNumber b) of
        (Some num, Some bn) \<Rightarrow>
          if num \<noteq> [] \<and> bn \<noteq> [] then
            (if upper num \<noteq> upper bn then
               [\<lparr>field = ''invoice_number'', severity = ''WARNING'',
                 pdf_value = Str num, bill_value = Str bn\<rparr>]
             else [])
          else []
      | _ \<Rightarrow> [])"

definition compare_amount :: "extraction_result \<Rightarrow> bill \<Rightarrow> error + issue list" where
  "compare_amount extracted b =
     (case (amount_decimal extracted, Amount b) of
        (Some x, Some y) \<Rightarrow>
          if float_truthy x \<and> decimal_truthy y then
            (let pdf_amount = decimal_of_float_str x; bill_amount = y in
             case amount_differs pdf_amount bill_amount of
               Inl err \<Rightarrow> Inl err
             | Inr differs \<Rightarrow>
                 if differs then
                   Inr [\<lparr>field = ''amount'', severity = ''ERROR'',
                         pdf_value = Float (xfloat pdf_amount),
                         bill_value = Float (float_of_decimal bill_amount)\<rparr>]
                 else Inr [])
          else Inr []
      | _ \<Rightarrow> Inr [])"

definition compare_date ::
  "(int \<Rightarrow> error + string) \<Rightarrow> extraction_result \<Rightarrow> bill \<Rightarrow> error + issue list" where
  "compare_date local_date extracted b =
     (case (date_timestamp extracted, BillDate b) of
        (Some pdf_ts, Some bill_ts) \<Rightarrow>
          if pdf_ts \<noteq> 0 \<and> bill_ts \<noteq> 0 then
            (case diff_days pdf_ts bill_ts of
               Inl err \<Rightarrow> Inl err
             | Inr d \<Rightarrow>
                 if float_gt_one d then
                   (case local_date bill_ts of
                      Inl err \<Rightarrow> Inl err
                    | Inr ymd \<Rightarrow>
                        Inr [\<lparr>field = ''date'', severity = ''WARNING'',
                              pdf_value = (case date_string extracted of
                                             None \<Rightarrow> PyNone | Some s \<Rightarrow> Str s),
                              bill_value = Str ymd\<rparr>])
                 else Inr [])
          else Inr []
      | _ \<Rightarrow> Inr [])"

text \<open>The three comparisons in the order of the program; an exception ends the function.\<close>

definition compare_with_bill ::
  "(int \<Rightarrow> error + string) \<Rightarrow> extraction_result \<Rightarrow> bill \<Rightarrow> error + issue list" where
  "compare_with_bill local_date extracted b =
     (let issues = compare_invoice_number extracted b in
      case compare_amount extracted b of
        Inl err \<Rightarrow> Inl err
      | Inr amount_issues \<Rightarrow>
          (case compare_date local_date extracted b of
             Inl err \<Rightarrow> Inl err
           | Inr date_issues \<Rightarrow> Inr (issues @ amount_issues @ date_issues)))"

section \<open>Sample inputs\<close>

text \<open>
  A date parser that knows two dates (with their timestamps in UTC) and raises on every
  other string, and three environments: a document with a text layer, a scanned one, and
  a blank one.
\<close>

definition sample_dateparser :: dateparser where
  "sample_dateparser s =
     (if s = ''2024-03-07'' then Some \<lparr>year = 2024, timestamp = Some 1709769600\<rparr>
      else if s = ''March 5, 2024'' then Some \<lparr>year = 2024, timestamp = Some 1709596800\<rparr>
      else None)"

definition sample_page :: string where
  "sample_page = ''Acme Corp - statement of account for the month of March''"

definition env_structured :: env where
  "env_structured = \<lparr> file_exists = (\<lambda>p. True), pdfplumber = Some (\<lambda>p. Some [Some sample_page]),
                       ocr = Some (\<lambda>p. Some [''scanned'']), dateutil = Some sample_dateparser \<rparr>"

definition env_scanned :: env where
  "env_scanned = \<lparr> file_exists = (\<lambda>p. True), pdfplumber = Some (\<lambda>p. Some [None, Some '' '']),
                    ocr = Some (\<lambda>p. Some [''scanned'']), dateutil = Some sample_dateparser \<rparr>"

definition env_blank :: env where
  "env_blank = \<lparr> file_exists = (\<lambda>p. True), pdfplumber = Some (\<lambda>p. None),
                  ocr = Some (\<lambda>p. Some ['' '', []]), dateutil = Some sample_dateparser \<rparr>"

text \<open>
  The local date as CPython gives it on 64-bit Linux (glibc) with the time zone UTC.
  \<^verbatim>\<open>fromtimestamp\<close> raises \<^verbatim>\<open>OverflowError\<close> when the timestamp does not fit the
  platform's 64-bit \<^verbatim>\<open>time_t\<close>, \<^verbatim>\<open>OSError\<close> when \<^verbatim>\<open>localtime\<close> cannot hold the year (the
  year minus 1900 in 32 bits), and \<^verbatim>\<open>ValueError\<close> when the year is not in 1..9999, or that
  of the same time one day earlier, which it computes too, is not. \<^verbatim>\<open>%Y\<close> is the year
  without padding, \<^verbatim>\<open>%m\<close> and \<^verbatim>\<open>%d\<close> have two digits.
\<close>

definition civil_from_days :: "int \<Rightarrow> int \<times> int \<times> int" where
  "civil_from_days days =
     (let z = days + 719468;
          era = z div 146097;
          doe = z - era * 146097;
          yoe = (doe - doe div 1460 + doe div 36524 - doe div 146096) div 365;
          doy = doe - (365 * yoe + yoe div 4 - yoe div 100);
          mp = (5 * doy + 2) div 153;
          d = doy - (153 * mp + 2) div 5 + 1;
          m = (if mp < 10 then mp + 3 else mp - 9);
          y = yoe + era * 400 + (if m \<le> 2 then 1 else 0)
      in (y, m, d))"

fun digits :: "nat \<Rightarrow> int \<Rightarrow> string" where
  "digits 0 n = []"
| "digits (Suc k) n = digits k (n div 10) @ [char_of (48 + n mod 10)]"

definition utc_date :: "int \<Rightarrow> error + string" where
  "utc_date ts =
     (if ts < - (2 ^ 63) \<or> 2 ^ 63 \<le> ts then Inl OverflowError
      else
        (let (y, m, d) = civil_from_days (ts div 86400) in
         if y - 1900 < - (2 ^ 31) \<or> 2 ^ 31 \<le> y - 1900 then Inl OSError
         else if y < 1 \<or> 9999 < y then Inl ValueError
         else if fst (civil_from_days ((ts - 86400) div 86400)) < 1 then Inl ValueError
         else Inr (digits (nat (ilog 10 y + 1)) y @ ''-'' @ digits 2 m @ ''-'' @ digits 2 d)))"

text \<open>
  Scanned one-page documents (no text layer, the text comes from image recognition) with
  a total of zero and with a total of ten cents, and an extraction result with the amount
  100.00.
\<close>

definition env_with_text :: "string \<Rightarrow> env" where
  "env_with_text t = \<lparr> file_exists = (\<lambda>p. True), pdfplumber = Some (\<lambda>p. Some [None]),
                        ocr = Some (\<lambda>p. Some [t]), dateutil = Some sample_dateparser \<rparr>"

definition zero_total_text :: string where
  "zero_total_text = ''Total: $0.00''"

definition ten_cents_text :: string where
  "ten_cents_text = ''Total: $0.10''"

definition extracted_100 :: extraction_result where
  "extracted_100 = (empty_result ''a.pdf'')\<lparr>amount_string := Some ''100.00'',
                      amount_decimal := Some (float_of_decimal (Dec 10000 (- 2)))\<rparr>"

section \<open>Properties: invoice number\<close>

text \<open>A pattern that matches decides the result: the later patterns are not tried.\<close>

lemma first_search_priority:
  "re_search True p s = Some g \<Longrightarrow> first_search (p # ps) s = Some (strip g)"
  by simp

text \<open>
  C6. Invoice-number extraction is priority-ordered over its four pattern tiers, and for
  a text holding both \<^verbatim>\<open>Invoice #INV-1234\<close> and a generic \<^verbatim>\<open>#XYZZY99\<close> the number
  extracted should be \<^verbatim>\<open>INV-1234\<close>. The first tier does win on this text, but its
  alternative \<^verbatim>\<open>Inv\<close>, matched without regard to case, stops inside the word
  \<^verbatim>\<open>Invoice\<close> and the group captures the rest of that word: the program returns
  \<^verbatim>\<open>oice\<close>.
\<close>

theorem parse_invoice_number_label_captured:
  "parse_invoice_number ''Invoice #INV-1234 and #XYZZY99'' = Some ''oice''"
  by code_simp

section \<open>Properties: amount\<close>

text \<open>A labelled total that parses is returned whatever bare amounts the text holds.\<close>

lemma parse_amount_labeled_first:
  "labeled_total total_patterns s = Some (g, d) \<Longrightarrow> parse_amount s = (Some g, Some d)"
  by (simp add: parse_amount_def)

text \<open>
  C1. Labelled totals take priority over bare currency amounts, and for the text
  \<^verbatim>\<open>Subtotal: $80.00 ... Total: $100.00\<close> the amount extracted should be 100.00. The
  label \<^verbatim>\<open>Total\<close> is searched without regard to case and without a word boundary, so
  the leftmost match is the one inside \<^verbatim>\<open>Subtotal\<close>: the program returns 80.00.
\<close>

theorem parse_amount_subtotal:
  "parse_amount ''Subtotal: $80.00 ... Total: $100.00'' = (Some ''80.00'', Some (Dec 8000 (- 2)))"
  by code_simp

text \<open>The descending sort: its head is a maximum, and the earliest one in the list.\<close>

lemma sorted_le_last:
  fixes zs :: "'k::linorder list"
  shows "sorted zs \<Longrightarrow> z \<in> set zs \<Longrightarrow> z \<le> last zs"
  by (induction zs) auto

lemma last_sort_key_max:
  fixes f :: "'a \<Rightarrow> 'k::linorder"
  assumes "x \<in> set xs"
  shows "f x \<le> f (last (sort_key f xs))"
proof -
  let ?ys = "sort_key f xs"
  have ne: "?ys \<noteq> []" using assms by (metis empty_iff list.set(1) set_sort)
  have "f x \<in> set (map f ?ys)" using assms by simp
  then have "f x \<le> last (map f ?ys)"
    using sorted_le_last[OF sorted_sort_key] by blast
  then show ?thesis using ne by (simp add: last_map)
qed

lemma last_filter_self:
  assumes "ys \<noteq> []" "P (last ys)"
  shows "last (filter P ys) = last ys"
  using assms
proof (induction ys)
  case Nil
  then show ?case by simp
next
  case (Cons a ys)
  show ?case
  proof (cases "ys = []")
    case True
    then show ?thesis using Cons.prems by simp
  next
    case False
    then have P: "P (last ys)" using Cons.prems by simp
    then have "filter P ys \<noteq> []" using False by (metis filter_empty_conv last_in_set)
    then show ?thesis using Cons.IH[OF False P] False by simp
  qed
qed

lemma hd_sort_desc:
  assumes "xs \<noteq> []"
  shows "hd (sort_desc xs) = hd (filter (\<lambda>y. dval (snd y) = dval (snd (hd (sort_desc xs)))) xs)"
proof -
  let ?f = "\<lambda>x. dval (snd x)"
  let ?ys = "sort_key ?f (rev xs)"
  have ne: "?ys \<noteq> []" using assms by (metis length_sort length_rev list.size(3) length_0_conv)
  have hd: "hd (sort_desc xs) = last ?ys" using ne by (simp add: sort_desc_def hd_rev)
  let ?k = "?f (last ?ys)"
  have "last ?ys = last (filter (\<lambda>y. ?f y = ?k) ?ys)"
    using last_filter_self[of ?ys "\<lambda>y. ?f y = ?k"] ne by simp
  also have "filter (\<lambda>y. ?f y = ?k) ?ys = filter (\<lambda>y. ?f y = ?k) (rev xs)"
    by (rule sort_key_stable)
  also have "last (filter (\<lambda>y. ?f y = ?k) (rev xs)) = hd (filter (\<lambda>y. ?f y = ?k) xs)"
    by (simp add: rev_filter[symmetric] last_rev)
  finally show ?thesis using hd by simp
qed

lemma hd_sort_desc_max:
  assumes "x \<in> set xs"
  shows "dval (snd x) \<le> dval (snd (hd (sort_desc xs)))"
proof -
  let ?f = "\<lambda>x. dval (snd x)"
  have ne: "sort_key ?f (rev xs) \<noteq> []" using assms by (metis empty_iff list.set(1) set_sort set_rev)
  have "x \<in> set (rev xs)" using assms by simp
  from last_sort_key_max[OF this, of ?f] show ?thesis using ne by (simp add: sort_desc_def hd_rev)
qed

lemma hd_sort_desc_mem:
  assumes "xs \<noteq> []"
  shows "hd (sort_desc xs) \<in> set xs"
proof -
  have "sort_desc xs \<noteq> []" using assms by (metis sort_desc_def length_sort length_rev list.size(3) length_0_conv)
  then have "hd (sort_desc xs) \<in> set (sort_desc xs)" by simp
  then show ?thesis by (simp add: sort_desc_def)
qed

lemma hd_filter_index:
  assumes "\<exists>x\<in>set xs. P x"
  shows "\<exists>i<length xs. hd (filter P xs) = xs ! i \<and> (\<forall>j<i. \<not> P (xs ! j))"
  using assms
proof (induction xs)
  case Nil
  then show ?case by simp
next
  case (Cons a xs)
  show ?case
  proof (cases "P a")
    case True
    then show ?thesis by (intro exI[of _ 0]) simp
  next
    case False
    then have "\<exists>x\<in>set xs. P x" using Cons.prems by auto
    from Cons.IH[OF this] obtain i where i: "i < length xs" "hd (filter P xs) = xs ! i" "\<forall>j<i. \<not> P (xs ! j)"
      by blast
    have "\<forall>j<Suc i. \<not> P ((a # xs) ! j)"
      using False i(3) by (auto simp: nth_Cons')
    then show ?thesis using i False by (intro exI[of _ "Suc i"]) simp
  qed
qed

text \<open>
  C10. When no labelled total is found and the bare currency amounts are not all
  rejected, the amount returned is a candidate of maximal value, and among the
  candidates of that value it is the one that occurs first in the text: every candidate
  before it is strictly smaller.
\<close>

theorem parse_amount_tie_earliest:
  assumes tierA: "labeled_total total_patterns text = None"
    and amounts: "amounts = collect_amounts (re_findall False currency_pattern text)"
    and ne: "amounts \<noteq> []"
  shows "\<exists>i<length amounts.
           parse_amount text = (Some (fst (amounts ! i)), Some (snd (amounts ! i)))
         \<and> (\<forall>j<length amounts. dval (snd (amounts ! j)) \<le> dval (snd (amounts ! i)))
         \<and> (\<forall>j<i. dval (snd (amounts ! j)) < dval (snd (amounts ! i)))"
proof -
  let ?a = "hd (sort_desc amounts)"
  let ?P = "\<lambda>y. dval (snd y) = dval (snd ?a)"
  have sne: "sort_desc amounts \<noteq> []"
    using ne by (metis sort_desc_def length_sort length_rev list.size(3) length_0_conv)
  have mne: "re_findall False currency_pattern text \<noteq> []"
    using ne amounts by auto
  have res: "parse_amount text = (Some (fst ?a), Some (snd ?a))"
    using tierA sne mne ne amounts
    by (cases "sort_desc amounts") (simp_all add: parse_amount_def Let_def)
  have "\<exists>x\<in>set amounts. ?P x" using hd_sort_desc_mem[OF ne] by blast
  from hd_filter_index[OF this] obtain i where i: "i < length amounts"
    "hd (filter ?P amounts) = amounts ! i" "\<forall>j<i. \<not> ?P (amounts ! j)" by blast
  have a: "?a = amounts ! i" using hd_sort_desc[OF ne] i(2) by simp
  have mx: "\<forall>j<length amounts. dval (snd (amounts ! j)) \<le> dval (snd (amounts ! i))"
    using hd_sort_desc_max[of _ amounts] a by (metis nth_mem)
  have "\<forall>j<i. dval (snd (amounts ! j)) < dval (snd (amounts ! i))"
  proof (intro allI impI)
    fix j assume j: "j < i"
    then have "dval (snd (amounts ! j)) \<noteq> dval (snd (amounts ! i))" using i(3) a by simp
    moreover have "dval (snd (amounts ! j)) \<le> dval (snd (amounts ! i))" using mx j i(1) by simp
    ultimately show "dval (snd (amounts ! j)) < dval (snd (amounts ! i))" by simp
  qed
  then show ?thesis using res a mx i(1) by auto
qed

theorem parse_amount_tie_earliest_witness:
  "labeled_total total_patterns ''a $1,000.00 b $250.00 c $1000.00'' = None
   \<and> collect_amounts (re_findall False currency_pattern ''a $1,000.00 b $250.00 c $1000.00'')
       = [(''1,000.00'', Dec 100000 (- 2)), (''250.00'', Dec 25000 (- 2)), (''1000.00'', Dec 100000 (- 2))]
   \<and> parse_amount ''a $1,000.00 b $250.00 c $1000.00'' = (Some ''1,000.00'', Some (Dec 100000 (- 2)))"
proof -
  let ?t = "''a $1,000.00 b $250.00 c $1000.00''"
  let ?am = "[(''1,000.00'', Dec 100000 (- 2)), (''250.00'', Dec 25000 (- 2)), (''1000.00'', Dec 100000 (- 2))]"
  have h1: "labeled_total total_patterns ?t = None" by code_simp
  have h2: "collect_amounts (re_findall False currency_pattern ?t) = ?am" by code_simp
  have h3: "?am \<noteq> []" by simp
  from parse_amount_tie_earliest[OF h1 h2[symmetric] h3]
  obtain i where i: "i < length ?am" "parse_amount ?t = (Some (fst (?am ! i)), Some (snd (?am ! i)))"
     "\<forall>j<i. dval (snd (?am ! j)) < dval (snd (?am ! i))"
     "\<forall>j<length ?am. dval (snd (?am ! j)) \<le> dval (snd (?am ! i))"
    by blast
  from i(1) consider "i = 0" | "i = 1" | "i = 2" by fastforce
  then have "i = 0"
  proof cases
    case 1 then show ?thesis .
  next
    case 2
    with i(4) have "dval (Dec 100000 (- 2)) \<le> dval (Dec 25000 (- 2))" by (auto dest: spec[of _ 0])
    then show ?thesis by simp
  next
    case 3
    with i(3) have "dval (Dec 100000 (- 2)) < dval (Dec 100000 (- 2))" by (auto dest: spec[of _ 0])
    then show ?thesis by simp
  qed
  with i(2) h1 h2 show ?thesis by simp
qed

section \<open>Properties: text acquisition\<close>

lemma pdfplumber_never_calls_ocr:
  "Call_ocr q \<notin> set (snd (extract_text_pdfplumber e pdf_path))"
  by (simp add: extract_text_pdfplumber_def split: option.splits)

text \<open>
  C5. The two-tier cascade: when the text of the structured tier has a trimmed length of
  at least 50, that text is returned with the method of the structured tier and the
  image-recognition engine is not called; otherwise, when image recognition yields text
  that is not all whitespace, that text is returned with its method; otherwise the
  result is the empty text with no method.
\<close>

theorem extract_text_cascade:
  "(50 \<le> length (strip (fst (extract_text_pdfplumber e p))) \<longrightarrow>
      fst (extract_text e p) = (fst (extract_text_pdfplumber e p), Pdfplumber)
      \<and> (\<forall>q. Call_ocr q \<notin> set (snd (extract_text e p))))
   \<and> (length (strip (fst (extract_text_pdfplumber e p))) < 50
        \<and> strip (fst (extract_text_ocr e p)) \<noteq> [] \<longrightarrow>
      fst (extract_text e p) = (fst (extract_text_ocr e p), Ocr))
   \<and> (length (strip (fst (extract_text_pdfplumber e p))) < 50
        \<and> strip (fst (extract_text_ocr e p)) = [] \<longrightarrow>
      fst (extract_text e p) = ([], NoMethod))"
  using pdfplumber_never_calls_ocr[of _ e p]
  by (auto simp: extract_text_def Let_def split: prod.splits)

theorem extract_text_cascade_witness:
  "50 \<le> length (strip (fst (extract_text_pdfplumber env_structured ''a.pdf'')))
   \<and> extract_text env_structured ''a.pdf'' = ((sample_page, Pdfplumber), [Call_pdfplumber ''a.pdf''])
   \<and> length (strip (fst (extract_text_pdfplumber env_scanned ''a.pdf''))) < 50
   \<and> strip (fst (extract_text_ocr env_scanned ''a.pdf'')) \<noteq> []
   \<and> fst (extract_text env_scanned ''a.pdf'') = (''scanned'', Ocr)
   \<and> strip (fst (extract_text_ocr env_blank ''a.pdf'')) = []
   \<and> fst (extract_text env_blank ''a.pdf'') = ([], NoMethod)"
proof -
  have s1: "50 \<le> length (strip (fst (extract_text_pdfplumber env_structured ''a.pdf'')))"
    by code_simp
  have t1: "extract_text_pdfplumber env_structured ''a.pdf'' = (sample_page, [Call_pdfplumber ''a.pdf''])"
    by code_simp
  have s2: "length (strip (fst (extract_text_pdfplumber env_scanned ''a.pdf''))) < 50"
    by code_simp
  have o2: "strip (fst (extract_text_ocr env_scanned ''a.pdf'')) \<noteq> []"
    by code_simp
  have t2: "fst (extract_text_ocr env_scanned ''a.pdf'') = ''scanned''"
    by code_simp
  have s3: "length (strip (fst (extract_text_pdfplumber env_blank ''a.pdf''))) < 50"
    by code_simp
  have o3: "strip (fst (extract_text_ocr env_blank ''a.pdf'')) = []"
    by code_simp
  have e1: "extract_text env_structured ''a.pdf'' = ((sample_page, Pdfplumber), [Call_pdfplumber ''a.pdf''])"
    using s1 t1 by (simp add: extract_text_def)
  show ?thesis
    using extract_text_cascade[of env_structured "''a.pdf''"]
          extract_text_cascade[of env_scanned "''a.pdf''"]
          extract_text_cascade[of env_blank "''a.pdf''"]
          s1 s2 o2 t2 s3 o3 e1
    by simp
qed

section \<open>Properties: date\<close>

lemma first_plausible_append:
  "first_plausible dp (xs @ ys) =
     (case first_plausible dp xs of Some r \<Rightarrow> Some r | None \<Rightarrow> first_plausible dp ys)"
  by (induction xs) (auto split: option.splits)

lemma first_plausible_none:
  "(\<forall>s\<in>set xs. \<not> acceptable dp s) \<Longrightarrow> first_plausible dp xs = None"
  by (induction xs) (auto simp: acceptable_def split: option.splits)

lemma first_plausible_first:
  "i < length xs \<Longrightarrow> acceptable dp (xs ! i) \<Longrightarrow> (\<forall>j<i. \<not> acceptable dp (xs ! j)) \<Longrightarrow>
   \<exists>d ts. dp (xs ! i) = Some d \<and> timestamp d = Some ts \<and> first_plausible dp xs = Some (xs ! i, ts)"
proof (induction xs arbitrary: i)
  case Nil
  then show ?case by simp
next
  case (Cons x xs)
  show ?case
  proof (cases i)
    case 0
    then show ?thesis using Cons.prems(2) by (auto simp: acceptable_def split: option.splits)
  next
    case (Suc k)
    have nx: "\<not> acceptable dp x" using Cons.prems(3) Suc by (auto dest: spec[of _ 0])
    have "\<forall>j<k. \<not> acceptable dp (xs ! j)"
    proof (intro allI impI)
      fix j assume "j < k"
      then have "Suc j < i" using Suc by simp
      then have "\<not> acceptable dp ((x # xs) ! Suc j)" using Cons.prems(3) by blast
      then show "\<not> acceptable dp (xs ! j)" by simp
    qed
    with Cons.IH[of k] Cons.prems Suc
    obtain d ts where "dp (xs ! k) = Some d" "timestamp d = Some ts" "first_plausible dp xs = Some (xs ! k, ts)"
      by auto
    moreover have "first_plausible dp (x # xs) = first_plausible dp xs"
      using nx by (auto simp: acceptable_def split: option.splits)
    ultimately show ?thesis using Suc by simp
  qed
qed

lemma generic_date_candidates:
  "generic_date dp generic_patterns text = first_plausible dp (tier_b_candidates text)"
  by (simp add: generic_patterns_def tier_b_candidates_def first_plausible_append split: option.splits)

text \<open>
  C7, as the program has it. When no labelled date is found, the unlabelled tier goes
  through the first three numeric day/month/year matches, then the first three ISO-like
  year-month-day matches, then the first three month-name matches, and returns the first
  of these candidates that is acceptable (parsed, year in 2020..2030, timestamp taken),
  with its timestamp; when none is acceptable no date is found.
\<close>

theorem parse_date_tier_b_order:
  assumes "labeled_date dp date_patterns text = None"
  shows "((\<forall>s\<in>set (tier_b_candidates text). \<not> acceptable dp s) \<longrightarrow>
            parse_date (Some dp) text = (None, None))
       \<and> (\<forall>i<length (tier_b_candidates text).
            acceptable dp (tier_b_candidates text ! i)
            \<and> (\<forall>j<i. \<not> acceptable dp (tier_b_candidates text ! j)) \<longrightarrow>
            (\<exists>d. dp (tier_b_candidates text ! i) = Some d
               \<and> parse_date (Some dp) text = (Some (tier_b_candidates text ! i), timestamp d)))"
proof (intro conjI impI allI)
  assume "\<forall>s\<in>set (tier_b_candidates text). \<not> acceptable dp s"
  then show "parse_date (Some dp) text = (None, None)"
    using assms by (simp add: parse_date_def generic_date_candidates first_plausible_none)
next
  fix i
  assume i: "i < length (tier_b_candidates text)"
    and a: "acceptable dp (tier_b_candidates text ! i)
            \<and> (\<forall>j<i. \<not> acceptable dp (tier_b_candidates text ! j))"
  from first_plausible_first[OF i] a obtain d ts where
    "dp (tier_b_candidates text ! i) = Some d" "timestamp d = Some ts"
    "first_plausible dp (tier_b_candidates text) = Some (tier_b_candidates text ! i, ts)"
    by blast
  then show "\<exists>d. dp (tier_b_candidates text ! i) = Some d
               \<and> parse_date (Some dp) text = (Some (tier_b_candidates text ! i), timestamp d)"
    using assms by (simp add: parse_date_def generic_date_candidates)
qed

theorem parse_date_tier_b_order_witness:
  "labeled_date sample_dateparser date_patterns ''Paid March 5, 2024 by wire 2024-03-07'' = None
   \<and> tier_b_candidates ''Paid March 5, 2024 by wire 2024-03-07'' = [''2024-03-07'', ''March 5, 2024'']
   \<and> acceptable sample_dateparser ''2024-03-07''
   \<and> parse_date (Some sample_dateparser) ''Paid March 5, 2024 by wire 2024-03-07''
       = (Some ''2024-03-07'', Some 1709769600)"
proof -
  let ?t = "''Paid March 5, 2024 by wire 2024-03-07''"
  have a: "labeled_date sample_dateparser date_patterns ?t = None" by code_simp
  have c: "tier_b_candidates ?t = [''2024-03-07'', ''March 5, 2024'']" by code_simp
  have acc: "acceptable sample_dateparser ''2024-03-07''" by code_simp
  have d: "sample_dateparser ''2024-03-07'' = Some \<lparr>year = 2024, timestamp = Some 1709769600\<rparr>"
    by code_simp
  from parse_date_tier_b_order[OF a] have
    "\<forall>i<length (tier_b_candidates ?t).
            acceptable sample_dateparser (tier_b_candidates ?t ! i)
            \<and> (\<forall>j<i. \<not> acceptable sample_dateparser (tier_b_candidates ?t ! j)) \<longrightarrow>
            (\<exists>d. sample_dateparser (tier_b_candidates ?t ! i) = Some d
               \<and> parse_date (Some sample_dateparser) ?t = (Some (tier_b_candidates ?t ! i), timestamp d))"
    by blast
  then have "acceptable sample_dateparser (tier_b_candidates ?t ! 0) \<longrightarrow>
       (\<exists>d. sample_dateparser (tier_b_candidates ?t ! 0) = Some d
               \<and> parse_date (Some sample_dateparser) ?t = (Some (tier_b_candidates ?t ! 0), timestamp d))"
    using c by (auto dest: spec[of _ 0])
  then have "parse_date (Some sample_dateparser) ?t = (Some ''2024-03-07'', Some 1709769600)"
    using c acc d by auto
  then show ?thesis using a c acc by simp
qed

text \<open>
  C7, as stated, puts the month-name shape before the ISO-like one. On a text with no
  labelled date and no numeric date, with a month-name date and an ISO-like date that
  both parse to the year 2024, the program returns the ISO-like date although the
  month-name date comes first in the text.
\<close>

theorem parse_date_iso_before_month_name:
  "labeled_date sample_dateparser date_patterns ''Paid March 5, 2024 by wire 2024-03-07'' = None
   \<and> re_findall False (Lit [], numeric_date 4) ''Paid March 5, 2024 by wire 2024-03-07'' = []
   \<and> re_findall False (Lit [], month_name_date) ''Paid March 5, 2024 by wire 2024-03-07'' = [''March 5, 2024'']
   \<and> re_findall False (Lit [], iso_date) ''Paid March 5, 2024 by wire 2024-03-07'' = [''2024-03-07'']
   \<and> sample_dateparser ''March 5, 2024'' = Some \<lparr>year = 2024, timestamp = Some 1709596800\<rparr>
   \<and> sample_dateparser ''2024-03-07'' = Some \<lparr>year = 2024, timestamp = Some 1709769600\<rparr>
   \<and> parse_date (Some sample_dateparser) ''Paid March 5, 2024 by wire 2024-03-07''
       = (Some ''2024-03-07'', Some 1709769600)
   \<and> parse_date (Some sample_dateparser) ''Paid March 5, 2024 by wire 2024-03-07''
       \<noteq> (Some ''March 5, 2024'', Some 1709596800)"
  by code_simp

section \<open>Properties: extraction result\<close>

text \<open>The amount and the date extractors return both parts of their pair or neither.\<close>

lemma labeled_total_parses:
  "labeled_total ps s = Some (g, d) \<Longrightarrow> Decimal (remove_commas g) = Some d"
  by (induction ps) (auto split: option.splits)

lemma collect_amounts_parses:
  "(m, d) \<in> set (collect_amounts ms) \<Longrightarrow> Decimal (remove_commas m) = Some d"
  by (induction ms) (auto split: option.splits)

lemma set_sort_desc: "set (sort_desc xs) = set xs"
  by (simp add: sort_desc_def)

lemma parse_amount_cases:
  "parse_amount s = (None, None)
   \<or> (\<exists>g d. parse_amount s = (Some g, Some d) \<and> Decimal (remove_commas g) = Some d)"
proof (cases "labeled_total total_patterns s")
  case (Some r)
  then show ?thesis
    using labeled_total_parses[of total_patterns s "fst r" "snd r"]
    by (cases r) (simp add: parse_amount_def)
next
  case None
  let ?am = "collect_amounts (re_findall False currency_pattern s)"
  show ?thesis
  proof (cases "sort_desc ?am")
    case Nil
    then show ?thesis using None by (simp add: parse_amount_def Let_def)
  next
    case (Cons a rest)
    then have "a \<in> set (sort_desc ?am)" by simp
    then have "a \<in> set ?am" by (simp only: set_sort_desc)
    then have "Decimal (remove_commas (fst a)) = Some (snd a)"
      using collect_amounts_parses[of "fst a" "snd a"] by simp
    then show ?thesis using None Cons by (simp add: parse_amount_def Let_def)
  qed
qed

lemma parse_amount_empty: "parse_amount [] = (None, None)"
  by code_simp

lemma parse_date_cases:
  "parse_date du text = (None, None) \<or> (\<exists>s ts. parse_date du text = (Some s, Some ts))"
  by (auto simp: parse_date_def split: option.splits)

text \<open>
  C2. The paired fields of the result should be present together. The date pair always
  is. For the amount pair, the amount goes through \<^verbatim>\<open>float(amount) if amount else None\<close>,
  and a decimal zero is false: on a document whose total is 0.00 the amount text is
  present and the amount value is absent.
\<close>

theorem zero_total_splits_pair:
  "parse_amount zero_total_text = (Some ''0.00'', Some (Dec 0 (- 2)))
   \<and> amount_string (fst (extract_invoice_data (env_with_text zero_total_text) ''a.pdf'')) = Some ''0.00''
   \<and> amount_decimal (fst (extract_invoice_data (env_with_text zero_total_text) ''a.pdf'')) = None"
  by code_simp

text \<open>
  An amount value in the result comes from an amount text that parses to the decimal of
  which it is the float.
\<close>

lemma amount_decimal_origin:
  assumes "amount_decimal (fst (extract_invoice_data e p)) = Some f"
  shows "\<exists>s d. amount_string (fst (extract_invoice_data e p)) = Some s
             \<and> Decimal (remove_commas s) = Some d
             \<and> f = float_of_decimal d"
proof -
  obtain content meth evs where et: "extract_text e p = ((content, meth), evs)"
    by (metis prod.exhaust)
  have ex: "file_exists e p" and ne: "content \<noteq> []"
    using assms et by (auto simp: extract_invoice_data_def empty_result_def Let_def split: if_splits)
  obtain ds dt where pd: "parse_date (dateutil e) content = (ds, dt)" by (metis prod.exhaust)
  obtain a am where pa: "parse_amount content = (a, am)" by (metis prod.exhaust)
  have r: "amount_string (fst (extract_invoice_data e p)) = a"
          "amount_decimal (fst (extract_invoice_data e p)) = float_if_truthy am"
    using ex ne et pd pa by (simp_all add: extract_invoice_data_def Let_def)
  from assms r(2) obtain d where d: "am = Some d" "f = float_of_decimal d"
    by (auto simp: float_if_truthy_def split: option.splits if_splits)
  from parse_amount_cases[of content] pa d(1) obtain s where "a = Some s" "Decimal (remove_commas s) = Some d"
    by auto
  then show ?thesis using r(1) d(2) by simp
qed

text \<open>
  C3, as the program has it. For every document whose amount extraction succeeds with
  an amount \<open>d\<close> that is not zero, \<open>d\<close> being the exact decimal parse of the matched digit
  string (separators removed), the result holds the matched string and, as its amount
  value, \<^verbatim>\<open>float(d)\<close>: the binary64 number nearest to \<open>d\<close>.
\<close>

theorem amount_decimal_stores_float:
  assumes "file_exists e p"
    and "snd (parse_amount (fst (fst (extract_text e p)))) = Some d"
    and "decimal_truthy d"
  shows "\<exists>s. amount_string (fst (extract_invoice_data e p)) = Some s
           \<and> Decimal (remove_commas s) = Some d
           \<and> amount_decimal (fst (extract_invoice_data e p)) = Some (float_of_decimal d)"
proof -
  obtain content meth evs where et: "extract_text e p = ((content, meth), evs)"
    by (metis prod.exhaust)
  have pa2: "snd (parse_amount content) = Some d" using assms(2) et by simp
  then have ne: "content \<noteq> []" using parse_amount_empty by auto
  from parse_amount_cases[of content] pa2 obtain s where
    pa: "parse_amount content = (Some s, Some d)" and dec: "Decimal (remove_commas s) = Some d"
    by auto
  obtain ds dt where pd: "parse_date (dateutil e) content = (ds, dt)" by (metis prod.exhaust)
  have "amount_string (fst (extract_invoice_data e p)) = Some s"
       "amount_decimal (fst (extract_invoice_data e p)) = float_if_truthy (Some d)"
    using assms(1) ne et pd pa by (simp_all add: extract_invoice_data_def Let_def)
  then show ?thesis using dec assms(3) by (simp add: float_if_truthy_def)
qed

theorem amount_decimal_stores_float_witness:
  "file_exists (env_with_text ten_cents_text) ''a.pdf''
   \<and> snd (parse_amount (fst (fst (extract_text (env_with_text ten_cents_text) ''a.pdf''))))
       = Some (Dec 10 (- 2))
   \<and> decimal_truthy (Dec 10 (- 2))
   \<and> amount_string (fst (extract_invoice_data (env_with_text ten_cents_text) ''a.pdf'')) = Some ''0.10''
   \<and> Decimal (remove_commas ''0.10'') = Some (Dec 10 (- 2))
   \<and> amount_decimal (fst (extract_invoice_data (env_with_text ten_cents_text) ''a.pdf''))
       = Some (Flt 7205759403792794 (- 56))"
proof -
  let ?e = "env_with_text ten_cents_text"
  have f: "file_exists ?e ''a.pdf''" by code_simp
  have a: "snd (parse_amount (fst (fst (extract_text ?e ''a.pdf'')))) = Some (Dec 10 (- 2))"
    by code_simp
  have t: "decimal_truthy (Dec 10 (- 2))" by simp
  have v: "float_of_decimal (Dec 10 (- 2)) = Flt 7205759403792794 (- 56)" by code_simp
  have s: "amount_string (fst (extract_invoice_data ?e ''a.pdf'')) = Some ''0.10''" by code_simp
  from amount_decimal_stores_float[OF f a t] obtain s' where
    "amount_string (fst (extract_invoice_data ?e ''a.pdf'')) = Some s'"
    "Decimal (remove_commas s') = Some (Dec 10 (- 2))"
    "amount_decimal (fst (extract_invoice_data ?e ''a.pdf'')) = Some (float_of_decimal (Dec 10 (- 2)))"
    by blast
  then show ?thesis using f a t v s by simp
qed

text \<open>
  C3, as stated, says the value stored is the exact decimal. For the amount text
  \<^verbatim>\<open>0.10\<close> the value stored is the float \<open>7205759403792794 / 2^56\<close>, which is not one
  tenth.
\<close>

theorem amount_decimal_not_exact:
  "amount_string (fst (extract_invoice_data (env_with_text ten_cents_text) ''a.pdf'')) = Some ''0.10''
   \<and> Decimal (remove_commas ''0.10'') = Some (Dec 10 (- 2))
   \<and> amount_decimal (fst (extract_invoice_data (env_with_text ten_cents_text) ''a.pdf''))
        = Some (Flt 7205759403792794 (- 56))
   \<and> fval (Flt 7205759403792794 (- 56)) \<noteq> dval (Dec 10 (- 2))"
proof -
  have "amount_string (fst (extract_invoice_data (env_with_text ten_cents_text) ''a.pdf'')) = Some ''0.10''
   \<and> Decimal (remove_commas ''0.10'') = Some (Dec 10 (- 2))
   \<and> amount_decimal (fst (extract_invoice_data (env_with_text ten_cents_text) ''a.pdf''))
        = Some (Flt 7205759403792794 (- 56))" by code_simp
  moreover have "fval (Flt 7205759403792794 (- 56)) \<noteq> dval (Dec 10 (- 2))" by simp
  ultimately show ?thesis by simp
qed

section \<open>Properties: reconciliation\<close>

text \<open>
  The integer logarithm and the rounding of a quotient, then the decimal operations
  against the values they stand for.
\<close>

text \<open>
  The context at its limits: overflow above \<open>Emax\<close>, also when rounding carries; gradual
  underflow down to \<open>Etiny\<close>. The sample local date at the ends of its range. The decimal
  read back from a float is one that gives the float again.
\<close>

lemma dec_fix_limits:
  "dec_fix (Dec 99999999999999999999999999995 999971) = Inl Overflow
   \<and> dec_fix (Dec 99999999999999999999999999994 999971)
       = Inr (Dec 9999999999999999999999999999 999972)
   \<and> dec_fix (Dec 10 999999) = Inl Overflow
   \<and> dec_fix (Dec 1 999999) = Inr (Dec 1 999999)
   \<and> dec_fix (Dec 5 (- 1000027)) = Inr (Dec 0 (- 1000026))
   \<and> dec_fix (Dec 15 (- 1000027)) = Inr (Dec 2 (- 1000026))"
  by code_simp

lemma utc_date_samples:
  "utc_date 0 = Inr ''1970-01-01''
   \<and> utc_date 253402300799 = Inr ''9999-12-31''
   \<and> utc_date 253402300800 = Inl ValueError
   \<and> utc_date (- 30627504000) = Inr ''999-06-15''
   \<and> utc_date (- 62135510400) = Inr ''1-01-02''
   \<and> utc_date (- 62135596800) = Inl ValueError"
  by code_simp

lemma float_str_reads_back:
  assumes "0 < m" "decimal_of_float_str (Flt m e) = Finite p"
  shows "float_of_decimal p = Flt m e \<or> p = exact_decimal m e"
proof -
  have p: "p = shortest_decimal m e" using assms by simp
  show ?thesis
    unfolding p shortest_decimal_def Let_def
    by (auto split: option.splits dest: find_Some_iff[THEN iffD1])
qed

declare ilog.simps [simp del]

lemma ilog_bounds:
  "1 \<le> a \<Longrightarrow> 0 \<le> ilog 10 a \<and> 10 ^ nat (ilog 10 a) \<le> a \<and> a < 10 ^ nat (ilog 10 a + 1)"
proof (induction "10::int" a rule: ilog.induct)
  case (1 n)
  show ?case
  proof (cases "n < 10")
    case True
    then show ?thesis using "1.prems" by (simp add: ilog.simps[of 10 n])
  next
    case False
    then have s: "ilog 10 n = 1 + ilog 10 (n div 10)" by (simp add: ilog.simps[of 10 n])
    have "1 \<le> n div 10" using False by simp
    with "1.hyps" False have ih: "0 \<le> ilog 10 (n div 10)"
      "10 ^ nat (ilog 10 (n div 10)) \<le> n div 10"
      "n div 10 < 10 ^ nat (ilog 10 (n div 10) + 1)" by simp_all
    let ?k = "nat (ilog 10 (n div 10))"
    have n1: "nat (ilog 10 n) = Suc ?k" using s ih(1) by simp
    have n2: "nat (ilog 10 n + 1) = Suc (Suc ?k)" using s ih(1) by simp
    have n3: "nat (ilog 10 (n div 10) + 1) = Suc ?k" using ih(1) by simp
    have "10 * 10 ^ ?k \<le> 10 * (n div 10)" using ih(2) by simp
    also have "\<dots> \<le> n" by simp
    finally have a: "10 ^ nat (ilog 10 n) \<le> n" unfolding n1 by simp
    have "n div 10 + 1 \<le> 10 ^ Suc ?k" using ih(3) unfolding n3 by simp
    then have "10 * (n div 10 + 1) \<le> 10 * 10 ^ Suc ?k" by simp
    moreover have "n < 10 * (n div 10 + 1)" by simp
    ultimately have b: "n < 10 ^ nat (ilog 10 n + 1)" unfolding n2 by simp
    show ?thesis using a b s ih(1) by simp
  qed
qed

lemma rhe_cases:
  "round_half_even a D = a div D \<or> round_half_even a D = a div D + 1"
  by (simp add: round_half_even_def Let_def)

lemma div_lt_bound:
  fixes a D B :: int
  assumes "0 < D" "a < B * D"
  shows "a div D < B"
proof (rule ccontr)
  assume "\<not> a div D < B"
  then have "B \<le> a div D" by simp
  then have "B * D \<le> (a div D) * D" using assms(1) by (simp only: mult_right_mono less_imp_le)
  moreover have "a = (a div D) * D + a mod D" by simp
  moreover have "0 \<le> a mod D" using assms(1) by simp
  ultimately show False using assms(2) by linarith
qed

lemma div_ge_bound:
  fixes a D B :: int
  assumes "0 < D" "B * D \<le> a"
  shows "B \<le> a div D"
proof (rule ccontr)
  assume "\<not> B \<le> a div D"
  then have "a div D + 1 \<le> B" by simp
  then have "(a div D + 1) * D \<le> B * D" using assms(1) by (simp only: mult_right_mono less_imp_le)
  then have le: "(a div D) * D + D \<le> B * D" by (simp add: distrib_right)
  have "a = (a div D) * D + a mod D" by simp
  moreover have "a mod D < D" using assms(1) by simp
  ultimately have "a < (a div D) * D + D" by linarith
  then show False using le assms(2) by linarith
qed

lemma rhe_le:
  assumes "0 < D" "a < B * D"
  shows "round_half_even a D \<le> B"
  using div_lt_bound[OF assms] rhe_cases[of a D] by auto

lemma rhe_ge:
  assumes "0 < D" "B * D \<le> a"
  shows "B \<le> round_half_even a D"
  using div_ge_bound[OF assms] rhe_cases[of a D] by auto

lemma rhe_gt_even:
  assumes D: "0 < D" and ev: "even N"
  shows "N < round_half_even a D \<longleftrightarrow> (2 * N + 1) * D < 2 * a"
proof -
  define d where "d = a div D"
  define r where "r = a mod D"
  define X where "X = d * D"
  define Y where "Y = N * D"
  have a: "a = X + r" unfolding X_def d_def r_def by simp
  have r: "0 \<le> r" "r < D" unfolding r_def using D by simp_all
  have g: "(2 * N + 1) * D = 2 * Y + D" unfolding Y_def by (simp add: algebra_simps)
  consider "d < N" | "d = N" | "N < d" by linarith
  then show ?thesis
  proof cases
    case 1
    then have "d + 1 \<le> N" by simp
    then have "(d + 1) * D \<le> N * D" using D by (simp only: mult_right_mono less_imp_le)
    then have "X + D \<le> Y" unfolding X_def Y_def by (simp add: distrib_right)
    then have "\<not> 2 * Y + D < 2 * a" using a r D by linarith
    moreover have "\<not> N < round_half_even a D" using 1 rhe_cases[of a D] unfolding d_def by auto
    ultimately show ?thesis unfolding g by simp
  next
    case 2
    then have "X = Y" unfolding X_def Y_def by simp
    then have e: "2 * Y + D < 2 * a \<longleftrightarrow> D < 2 * r" using a by linarith
    have "N < round_half_even a D \<longleftrightarrow> D < 2 * r"
      using 2 ev unfolding d_def r_def by (auto simp: round_half_even_def Let_def)
    then show ?thesis unfolding g using e by simp
  next
    case 3
    then have "N + 1 \<le> d" by simp
    then have "(N + 1) * D \<le> d * D" using D by (simp only: mult_right_mono less_imp_le)
    then have "Y + D \<le> X" unfolding X_def Y_def by (simp add: distrib_right)
    then have "2 * Y + D < 2 * a" using a r D by linarith
    moreover have "N < round_half_even a D" using 3 rhe_cases[of a D] unfolding d_def by auto
    ultimately show ?thesis unfolding g by simp
  qed
qed

lemma powi_neg: "\<not> 0 \<le> e \<Longrightarrow> (10::rat) powi e = 1 / 10 ^ nat (- e)"
  by (simp add: power_int_def power_divide)

lemma dval_powi: "dval (Dec c e) = of_int c * (10::rat) powi e"
proof (cases "0 \<le> e")
  case True
  then show ?thesis by (simp add: power_int_def)
next
  case False
  then show ?thesis by (simp add: powi_neg)
qed

lemma abs_dval: "\<bar>dval (Dec c e)\<bar> = of_int \<bar>c\<bar> * (10::rat) powi e"
  by (simp only: dval_powi abs_mult of_int_abs) simp

lemma powi_nat: "0 \<le> k \<Longrightarrow> (of_int (10 ^ nat k) :: rat) = 10 powi k"
  by (simp add: power_int_def)

lemma powi_add: "(10::rat) powi (i + j) = 10 powi i * 10 powi j"
  by (simp add: power_int_add)

lemma powi_mono: "i \<le> j \<Longrightarrow> (10::rat) powi i \<le> 10 powi j"
  by (rule power_int_increasing) simp_all

lemma powi_less_imp: "(10::rat) powi i < 10 powi j \<Longrightarrow> i < j"
  using powi_mono[of j i] by (cases "i < j") auto

lemma powi_pos: "(0::rat) < 10 powi i"
  by simp

text \<open>The magnitude of a non-zero decimal against the number of digits of its coefficient.\<close>

lemma magnitude_bounds:
  assumes "c \<noteq> 0"
  shows "(10::rat) powi (ilog 10 \<bar>c\<bar> + e) \<le> \<bar>dval (Dec c e)\<bar>"
    and "\<bar>dval (Dec c e)\<bar> < 10 powi (ilog 10 \<bar>c\<bar> + 1 + e)"
proof -
  have a: "1 \<le> \<bar>c\<bar>" using assms by simp
  note b = ilog_bounds[OF a]
  have "(of_int (10 ^ nat (ilog 10 \<bar>c\<bar>)) :: rat) \<le> of_int \<bar>c\<bar>" using b by (simp only: of_int_le_iff)
  then have "(10::rat) powi (ilog 10 \<bar>c\<bar>) \<le> of_int \<bar>c\<bar>" using b by (simp only: powi_nat)
  then have "(10::rat) powi (ilog 10 \<bar>c\<bar>) * 10 powi e \<le> of_int \<bar>c\<bar> * 10 powi e"
    using powi_pos[of e] by (simp only: mult_le_cancel_right_pos)
  then show "(10::rat) powi (ilog 10 \<bar>c\<bar> + e) \<le> \<bar>dval (Dec c e)\<bar>"
    by (simp only: powi_add abs_dval)
  have "(of_int \<bar>c\<bar> :: rat) < of_int (10 ^ nat (ilog 10 \<bar>c\<bar> + 1))" using b by (simp only: of_int_less_iff)
  moreover have "0 \<le> ilog 10 \<bar>c\<bar> + 1" using b by simp
  ultimately have "(of_int \<bar>c\<bar> :: rat) < 10 powi (ilog 10 \<bar>c\<bar> + 1)" by (simp only: powi_nat)
  then have "of_int \<bar>c\<bar> * 10 powi e < (10::rat) powi (ilog 10 \<bar>c\<bar> + 1) * 10 powi e"
    using powi_pos[of e] by (simp only: mult_less_cancel_right_pos)
  then show "\<bar>dval (Dec c e)\<bar> < 10 powi (ilog 10 \<bar>c\<bar> + 1 + e)"
    by (simp only: powi_add abs_dval)
qed

lemma digits_le_28:
  assumes "c \<noteq> 0" "\<bar>c\<bar> < 10 ^ 28"
  shows "ilog 10 \<bar>c\<bar> \<le> 27"
proof (rule ccontr)
  assume "\<not> ilog 10 \<bar>c\<bar> \<le> 27"
  then have "28 \<le> nat (ilog 10 \<bar>c\<bar>)" by simp
  then have "(10::int) ^ 28 \<le> 10 ^ nat (ilog 10 \<bar>c\<bar>)" by (intro power_increasing) simp_all
  moreover have "10 ^ nat (ilog 10 \<bar>c\<bar>) \<le> \<bar>c\<bar>" using ilog_bounds[of "\<bar>c\<bar>"] assms(1) by simp
  ultimately show False using assms(2) by linarith
qed

lemma lt_28_digits:
  assumes "c \<noteq> 0" "ilog 10 \<bar>c\<bar> \<le> 27"
  shows "\<bar>c\<bar> < 10 ^ 28"
proof -
  have "0 \<le> ilog 10 \<bar>c\<bar>" "\<bar>c\<bar> < 10 ^ nat (ilog 10 \<bar>c\<bar> + 1)"
    using ilog_bounds[of "\<bar>c\<bar>"] assms(1) by simp_all
  moreover have "(10::int) ^ nat (ilog 10 \<bar>c\<bar> + 1) \<le> 10 ^ 28"
    using assms(2) by (intro power_increasing) simp_all
  ultimately show ?thesis by linarith
qed

lemma dec_fix_in_context: "in_context d \<Longrightarrow> dec_fix d = Inr d"
proof (cases d)
  case (Dec c e)
  assume "in_context d"
  then have h: "c \<noteq> 0" "\<bar>c\<bar> < 10 ^ 28" "Etiny \<le> e" "ilog 10 \<bar>c\<bar> + 1 + e - 28 \<le> Etop"
    using Dec by simp_all
  have "ilog 10 \<bar>c\<bar> \<le> 27" using digits_le_28[OF h(1,2)] .
  then have "\<not> e < max (ilog 10 \<bar>c\<bar> + 1 + e - 28) Etiny" using h(3) by simp
  then show ?thesis using Dec h(1,4) by (simp add: Let_def)
qed

lemma scale_powi:
  assumes "e \<le> e1"
  shows "(of_int (c * 10 ^ nat (e1 - e)) :: rat) * 10 powi e = of_int c * 10 powi e1"
proof -
  have a: "(10::rat) ^ nat (e1 - e) = 10 powi (e1 - e)" using assms by (simp add: power_int_def)
  have b: "(10::rat) powi (e1 - e) * 10 powi e = 10 powi e1"
    by (simp add: power_int_add[symmetric])
  have "(of_int (c * 10 ^ nat (e1 - e)) :: rat) * 10 powi e
        = of_int c * (10 ^ nat (e1 - e) * 10 powi e)" by simp
  also have "\<dots> = of_int c * 10 powi e1" unfolding a b ..
  finally show ?thesis .
qed

text \<open>
  A decimal of at most 28 digits that exceeds one cent exceeds it by a unit of the 29th
  decimal place at least.
\<close>

lemma unrounded_threshold:
  assumes c: "c \<noteq> 0" "\<bar>c\<bar> < 10 ^ 28" and gt: "1 / 100 < \<bar>dval (Dec c e)\<bar>"
  shows "1 / 100 + 5 / 10 ^ 30 < \<bar>dval (Dec c e)\<bar>"
proof (cases "- 29 \<le> e")
  case True
  define z where "z = \<bar>c\<bar> * 10 ^ nat (e - (- 29))"
  define P where "P = (10::rat) powi (- 29)"
  have P: "0 < P" "P = 1 / 10 ^ 29" unfolding P_def by simp_all
  have v: "\<bar>dval (Dec c e)\<bar> = of_int z * P"
    unfolding z_def P_def abs_dval by (rule scale_powi[OF True, symmetric])
  have "of_int (10 ^ 27) * P < of_int z * P" using gt v P(2) by simp
  then have "(of_int (10 ^ 27) :: rat) < of_int z" using P(1) by (simp only: mult_less_cancel_right_pos)
  then have "10 ^ 27 < z" by (simp only: of_int_less_iff)
  then have "10 ^ 27 + 1 \<le> z" by simp
  then have "(of_int (10 ^ 27 + 1) :: rat) \<le> of_int z" by (simp only: of_int_le_iff)
  then have "of_int (10 ^ 27 + 1) * P \<le> of_int z * P" using P(1) by (simp only: mult_le_cancel_right_pos)
  moreover have "1 / 100 + 5 / 10 ^ 30 < of_int (10 ^ 27 + 1) * P" unfolding P(2) by simp
  ultimately show ?thesis using v by linarith
next
  case False
  then have "e \<le> - 30" by simp
  then have "(10::rat) powi e \<le> 10 powi (- 30)" by (rule powi_mono)
  then have "of_int \<bar>c\<bar> * (10::rat) powi e \<le> of_int \<bar>c\<bar> * 10 powi (- 30)"
    by (intro mult_left_mono) simp_all
  moreover have "(of_int \<bar>c\<bar> :: rat) < of_int (10 ^ 28)" using c(2) by (simp only: of_int_less_iff)
  then have "of_int \<bar>c\<bar> * (10::rat) powi (- 30) < of_int (10 ^ 28) * 10 powi (- 30)"
    using powi_pos[of "- 30"] by (simp only: mult_less_cancel_right_pos)
  moreover have "of_int (10 ^ 28) * (10::rat) powi (- 30) = 1 / 100" by simp
  ultimately have "\<bar>dval (Dec c e)\<bar> < 1 / 100" unfolding abs_dval by linarith
  then show ?thesis using gt by linarith
qed

text \<open>
  Rounding a coefficient \<open>a\<close> at the exponent \<open>e\<close> to the exponent \<open>q\<close>: the value that
  results, against the value rounded.
\<close>

lemma rounded_value:
  assumes "e < q"
  shows "of_int a * (10::rat) powi e = of_int a / of_int (10 ^ nat (q - e)) * 10 powi q"
proof -
  have "(10::rat) powi q = 10 powi (q - e) * 10 powi e" by (simp add: power_int_add[symmetric])
  moreover have "(10::rat) powi (q - e) = of_int (10 ^ nat (q - e))"
    using assms powi_nat[of "q - e"] by simp
  ultimately show ?thesis by simp
qed

lemma round_to_full_precision:
  assumes c: "c \<noteq> 0" and q: "q = ilog 10 \<bar>c\<bar> + 1 + e - 28" and lt: "e < q"
    and m: "m = round_half_even \<bar>c\<bar> (10 ^ nat (q - e))"
  shows "10 ^ 27 \<le> m" and "m \<le> 10 ^ 28"
    and "1 / 100 < of_int m * (10::rat) powi q \<longleftrightarrow> 1 / 100 + 5 / 10 ^ 30 < \<bar>dval (Dec c e)\<bar>"
proof -
  define L where "L = ilog 10 \<bar>c\<bar>"
  define D where "D = (10::int) ^ nat (q - e)"
  have D: "0 < D" unfolding D_def by simp
  have b: "0 \<le> L" "10 ^ nat L \<le> \<bar>c\<bar>" "\<bar>c\<bar> < 10 ^ nat (L + 1)"
    unfolding L_def using ilog_bounds[of "\<bar>c\<bar>"] c by simp_all
  have k: "q - e = L - 27" unfolding q L_def by simp
  then have L28: "28 \<le> L" using lt by simp
  have "nat L = 27 + nat (q - e)" using k L28 by simp
  then have lo: "10 ^ 27 * D \<le> \<bar>c\<bar>" using b(2) unfolding D_def by (simp add: power_add)
  have "nat (L + 1) = 28 + nat (q - e)" using k L28 by simp
  then have hi: "\<bar>c\<bar> < 10 ^ 28 * D" using b(3) unfolding D_def by (simp add: power_add)
  show m27: "10 ^ 27 \<le> m" unfolding m D_def[symmetric] using rhe_ge[OF D lo] .
  show m28: "m \<le> 10 ^ 28" unfolding m D_def[symmetric] using rhe_le[OF D hi] .
  have v: "\<bar>dval (Dec c e)\<bar> = of_int \<bar>c\<bar> / of_int D * 10 powi q"
    unfolding abs_dval D_def using rounded_value[OF lt] .
  have vlo: "(10::rat) powi (q + 27) \<le> \<bar>dval (Dec c e)\<bar>"
    using magnitude_bounds(1)[OF c, of e] unfolding q by (simp add: algebra_simps)
  have vhi: "\<bar>dval (Dec c e)\<bar> < (10::rat) powi (q + 28)"
    using magnitude_bounds(2)[OF c, of e] unfolding q by (simp add: algebra_simps)
  consider "- 28 \<le> q" | "q \<le> - 30" | "q = - 29" by linarith
  then show "1 / 100 < of_int m * (10::rat) powi q \<longleftrightarrow> 1 / 100 + 5 / 10 ^ 30 < \<bar>dval (Dec c e)\<bar>"
  proof cases
    case 1
    have "(10::rat) powi (- 1) \<le> 10 powi (q + 27)" using 1 by (intro powi_mono) simp
    then have a: "1 / 100 + 5 / 10 ^ 30 < \<bar>dval (Dec c e)\<bar>" using vlo by simp
    have "(10::rat) powi (- 28) \<le> 10 powi q" using 1 by (rule powi_mono)
    then have "of_int (10 ^ 27) * (10::rat) powi (- 28) \<le> of_int (10 ^ 27) * 10 powi q"
      by (intro mult_left_mono) simp_all
    moreover have "(of_int (10 ^ 27) :: rat) \<le> of_int m" using m27 by (simp only: of_int_le_iff)
    then have "of_int (10 ^ 27) * (10::rat) powi q \<le> of_int m * 10 powi q"
      using powi_pos[of q] by (simp only: mult_le_cancel_right_pos)
    moreover have "of_int (10 ^ 27) * (10::rat) powi (- 28) = 1 / 10" by simp
    ultimately have "1 / 100 < of_int m * (10::rat) powi q" by linarith
    then show ?thesis using a by simp
  next
    case 2
    have "(10::rat) powi (q + 28) \<le> 10 powi (- 2)" using 2 by (intro powi_mono) simp
    then have a: "\<not> 1 / 100 + 5 / 10 ^ 30 < \<bar>dval (Dec c e)\<bar>" using vhi by simp
    have "(10::rat) powi q \<le> 10 powi (- 30)" using 2 by (rule powi_mono)
    then have "of_int (10 ^ 28) * (10::rat) powi q \<le> of_int (10 ^ 28) * 10 powi (- 30)"
      by (intro mult_left_mono) simp_all
    moreover have "(of_int m :: rat) \<le> of_int (10 ^ 28)" using m28 by (simp only: of_int_le_iff)
    then have "of_int m * (10::rat) powi q \<le> of_int (10 ^ 28) * 10 powi q"
      using powi_pos[of q] by (simp only: mult_le_cancel_right_pos)
    moreover have "of_int (10 ^ 28) * (10::rat) powi (- 30) = 1 / 100" by simp
    ultimately have "\<not> 1 / 100 < of_int m * (10::rat) powi q" by linarith
    then show ?thesis using a by simp
  next
    case 3
    define P where "P = (10::rat) powi (- 29)"
    have P: "0 < P" "P = 1 / 10 ^ 29" unfolding P_def by simp_all
    have "1 / 100 < of_int m * P \<longleftrightarrow> of_int (10 ^ 27) * P < of_int m * P"
      unfolding P(2) by simp
    also have "\<dots> \<longleftrightarrow> (of_int (10 ^ 27) :: rat) < of_int m"
      using P(1) by (simp only: mult_less_cancel_right_pos)
    also have "\<dots> \<longleftrightarrow> 10 ^ 27 < m" by (simp only: of_int_less_iff)
    also have "\<dots> \<longleftrightarrow> (2 * 10 ^ 27 + 1) * D < 2 * \<bar>c\<bar>"
      unfolding m D_def[symmetric] by (rule rhe_gt_even[OF D]) simp
    also have "\<dots> \<longleftrightarrow> (of_int ((2 * 10 ^ 27 + 1) * D) :: rat) < of_int (2 * \<bar>c\<bar>)"
      by (simp only: of_int_less_iff)
    also have "\<dots> \<longleftrightarrow> (2 * 10 ^ 27 + 1) / 2 < (of_int \<bar>c\<bar> :: rat) / of_int D"
      using D by (simp add: field_simps)
    also have "\<dots> \<longleftrightarrow> (2 * 10 ^ 27 + 1) / 2 * P < (of_int \<bar>c\<bar> :: rat) / of_int D * P"
      using P(1) by (simp only: mult_less_cancel_right_pos)
    also have "\<dots> \<longleftrightarrow> 1 / 100 + 5 / 10 ^ 30 < \<bar>dval (Dec c e)\<bar>"
      unfolding v 3 P_def[symmetric] unfolding P(2) by simp
    finally show ?thesis unfolding 3 P_def .
  qed
qed

lemma Etiny_le: "Etiny \<le> - 29" "Etiny \<le> Etop"
  by (simp_all add: Etiny_def Etop_def Emax_def)

lemma round_to_etiny:
  assumes c: "c \<noteq> 0" and sub: "ilog 10 \<bar>c\<bar> + 1 + e - 28 < Etiny" and lt: "e < Etiny"
    and m: "m = round_half_even \<bar>c\<bar> (10 ^ nat (Etiny - e))"
  shows "0 \<le> m" and "m \<le> 10 ^ 27"
    and "\<not> 1 / 100 < of_int m * (10::rat) powi Etiny"
    and "\<not> 1 / 100 + 5 / 10 ^ 30 < \<bar>dval (Dec c e)\<bar>"
proof -
  define L where "L = ilog 10 \<bar>c\<bar>"
  define D where "D = (10::int) ^ nat (Etiny - e)"
  have D: "0 < D" unfolding D_def by simp
  have b: "0 \<le> L" "\<bar>c\<bar> < 10 ^ nat (L + 1)"
    unfolding L_def using ilog_bounds[of "\<bar>c\<bar>"] c by simp_all
  have "nat (L + 1) \<le> 27 + nat (Etiny - e)" using sub lt unfolding L_def by simp
  then have "(10::int) ^ nat (L + 1) \<le> 10 ^ (27 + nat (Etiny - e))"
    by (intro power_increasing) simp_all
  then have hi: "\<bar>c\<bar> < 10 ^ 27 * D" using b(2) unfolding D_def by (simp add: power_add)
  have lo: "0 * D \<le> \<bar>c\<bar>" by simp
  show "0 \<le> m" unfolding m D_def[symmetric] using rhe_ge[OF D lo] .
  show m27: "m \<le> 10 ^ 27" unfolding m D_def[symmetric] using rhe_le[OF D hi] .
  have "(of_int m :: rat) \<le> of_int (10 ^ 27)" using m27 by (simp only: of_int_le_iff)
  then have "of_int m * (10::rat) powi Etiny \<le> of_int (10 ^ 27) * 10 powi Etiny"
    using powi_pos[of Etiny] by (simp only: mult_le_cancel_right_pos)
  moreover have "(10::rat) powi Etiny \<le> 10 powi (- 29)" using Etiny_le(1) by (rule powi_mono)
  then have "of_int (10 ^ 27) * (10::rat) powi Etiny \<le> of_int (10 ^ 27) * 10 powi (- 29)"
    by (intro mult_left_mono) simp_all
  moreover have "of_int (10 ^ 27) * (10::rat) powi (- 29) = 1 / 100" by simp
  ultimately show "\<not> 1 / 100 < of_int m * (10::rat) powi Etiny" by linarith
  have "L + 1 + e \<le> - 2" using sub Etiny_le(1) unfolding L_def by simp
  then have "(10::rat) powi (L + 1 + e) \<le> 10 powi (- 2)" by (rule powi_mono)
  moreover have "\<bar>dval (Dec c e)\<bar> < 10 powi (L + 1 + e)"
    unfolding L_def using magnitude_bounds(2)[OF c] .
  ultimately show "\<not> 1 / 100 + 5 / 10 ^ 30 < \<bar>dval (Dec c e)\<bar>" by simp
qed

lemma dec_fix_unchanged:
  assumes "c \<noteq> 0" "\<not> Etop < ilog 10 \<bar>c\<bar> + 1 + e - 28"
    "\<not> e < max (ilog 10 \<bar>c\<bar> + 1 + e - 28) Etiny"
  shows "dec_fix (Dec c e) = Inr (Dec c e)"
  using assms by (simp add: Let_def)

lemma dec_fix_rounded:
  assumes "c \<noteq> 0" "\<not> Etop < ilog 10 \<bar>c\<bar> + 1 + e - 28"
    "q = max (ilog 10 \<bar>c\<bar> + 1 + e - 28) Etiny" "e < q"
    "m = round_half_even \<bar>c\<bar> (10 ^ nat (q - e))"
  shows "dec_fix (Dec c e) =
           (if m = 10 ^ 28
            then (if Etop < q + 1 then Inl Overflow
                  else Inr (Dec (if c < 0 then - (10 ^ 27) else 10 ^ 27) (q + 1)))
            else (if Etop < q then Inl Overflow
                  else Inr (Dec (if c < 0 then - m else m) q)))"
  using assms by (simp add: Let_def)

text \<open>
  What fitting to the context does to a comparison with one cent: the fitted value
  exceeds one cent exactly when the value exceeds one cent by more than half a unit of
  the 28th digit.
\<close>

lemma dec_fix_threshold:
  assumes c: "c \<noteq> 0" and bound: "\<bar>dval (Dec c e)\<bar> < 10 powi Emax"
  shows "\<exists>c' e'. dec_fix (Dec c e) = Inr (Dec c' e')
           \<and> (c' = 0 \<or> in_context (Dec c' e'))
           \<and> (1 / 100 < \<bar>dval (Dec c' e')\<bar> \<longleftrightarrow> 1 / 100 + 5 / 10 ^ 30 < \<bar>dval (Dec c e)\<bar>)"
proof -
  define X where "X = ilog 10 \<bar>c\<bar> + 1 + e - 28"
  define q where "q = max X Etiny"
  have "(10::rat) powi (ilog 10 \<bar>c\<bar> + e) < 10 powi Emax"
    using magnitude_bounds(1)[OF c, of e] bound by linarith
  then have "ilog 10 \<bar>c\<bar> + e < Emax" by (rule powi_less_imp)
  then have XE: "X < Etop" unfolding X_def Etop_def by simp
  then have nov: "\<not> Etop < ilog 10 \<bar>c\<bar> + 1 + e - 28" unfolding X_def by simp
  have qE: "q < Etop \<or> q = Etiny" unfolding q_def using XE by (auto simp: max_def)
  then have q1: "q \<le> Etop" using Etiny_le(2) by auto
  show ?thesis
  proof (cases "e < q")
    case False
    then have ne: "\<not> e < max (ilog 10 \<bar>c\<bar> + 1 + e - 28) Etiny" unfolding q_def X_def .
    have r: "dec_fix (Dec c e) = Inr (Dec c e)" using dec_fix_unchanged[OF c nov ne] .
    have "ilog 10 \<bar>c\<bar> \<le> 27" "Etiny \<le> e" using False unfolding q_def X_def by simp_all
    then have ic: "in_context (Dec c e)" using c nov lt_28_digits[OF c] by simp
    then have c28: "\<bar>c\<bar> < 10 ^ 28" by simp
    have "(0::rat) < 5 / 10 ^ 30" by simp
    then have "1 / 100 + 5 / 10 ^ 30 < \<bar>dval (Dec c e)\<bar> \<Longrightarrow> 1 / 100 < \<bar>dval (Dec c e)\<bar>"
      by linarith
    then have "1 / 100 < \<bar>dval (Dec c e)\<bar> \<longleftrightarrow> 1 / 100 + 5 / 10 ^ 30 < \<bar>dval (Dec c e)\<bar>"
      using unrounded_threshold[OF c c28, of e] by blast
    then show ?thesis using r ic by blast
  next
    case True
    define m where "m = round_half_even \<bar>c\<bar> (10 ^ nat (q - e))"
    note R = dec_fix_rounded[OF c nov q_def[unfolded X_def] True m_def]
    show ?thesis
    proof (cases "Etiny \<le> X")
      case normal: True
      then have qX: "q = ilog 10 \<bar>c\<bar> + 1 + e - 28" unfolding q_def X_def by simp
      note F = round_to_full_precision[OF c qX True m_def]
      have qlt: "q < Etop" using XE qX unfolding X_def by simp
      have qt: "Etiny \<le> q" using normal qX unfolding X_def by simp
      show ?thesis
      proof (cases "m = 10 ^ 28")
        case up: True
        define c' where "c' = (if c < 0 then - (10 ^ 27) else 10 ^ 27 :: int)"
        have r: "dec_fix (Dec c e) = Inr (Dec c' (q + 1))"
          using R up qlt unfolding c'_def by simp
        have c': "c' \<noteq> 0" "\<bar>c'\<bar> = 10 ^ 27" unfolding c'_def by simp_all
        then have "\<bar>c'\<bar> < 10 ^ 28" by simp
        then have "ilog 10 \<bar>c'\<bar> \<le> 27" using digits_le_28[OF c'(1)] by simp
        then have ic: "in_context (Dec c' (q + 1))" using c' qlt qt by simp
        have "\<bar>dval (Dec c' (q + 1))\<bar> = of_int (10 ^ 27) * (10::rat) powi (q + 1)"
          unfolding abs_dval c'(2) ..
        also have "\<dots> = of_int m * 10 powi q" unfolding up powi_add by simp
        finally have "1 / 100 < \<bar>dval (Dec c' (q + 1))\<bar> \<longleftrightarrow> 1 / 100 + 5 / 10 ^ 30 < \<bar>dval (Dec c e)\<bar>"
          using F(3) by simp
        then show ?thesis using r ic by blast
      next
        case noup: False
        define c' where "c' = (if c < 0 then - m else m)"
        have r: "dec_fix (Dec c e) = Inr (Dec c' q)"
          using R noup qlt unfolding c'_def by simp
        have m: "0 < m" "m < 10 ^ 28" using F(1,2) noup by simp_all
        then have c': "c' \<noteq> 0" "\<bar>c'\<bar> = m" unfolding c'_def by simp_all
        then have "ilog 10 \<bar>c'\<bar> \<le> 27" using digits_le_28[OF c'(1)] m(2) by simp
        then have ic: "in_context (Dec c' q)" using c' m qlt qt by simp
        have "\<bar>dval (Dec c' q)\<bar> = of_int m * (10::rat) powi q" unfolding abs_dval c'(2) ..
        then have "1 / 100 < \<bar>dval (Dec c' q)\<bar> \<longleftrightarrow> 1 / 100 + 5 / 10 ^ 30 < \<bar>dval (Dec c e)\<bar>"
          using F(3) by simp
        then show ?thesis using r ic by blast
      qed
    next
      case subnormal: False
      then have qX: "q = Etiny" and sub: "ilog 10 \<bar>c\<bar> + 1 + e - 28 < Etiny"
        unfolding q_def X_def by simp_all
      note F = round_to_etiny[OF c sub True[unfolded qX] m_def[unfolded qX]]
      define c' where "c' = (if c < 0 then - m else m)"
      have "m \<noteq> 10 ^ 28" using F(2) by simp
      then have r: "dec_fix (Dec c e) = Inr (Dec c' Etiny)"
        using R Etiny_le(2) unfolding c'_def qX by simp
      have c': "\<bar>c'\<bar> = m" unfolding c'_def using F(1) by simp
      have ic: "c' = 0 \<or> in_context (Dec c' Etiny)"
      proof (cases "c' = 0")
        case False
        have "\<bar>c'\<bar> < 10 ^ 28" using c' F(2) by simp
        then have "ilog 10 \<bar>c'\<bar> \<le> 27" using digits_le_28[OF False] by simp
        then show ?thesis using False \<open>\<bar>c'\<bar> < 10 ^ 28\<close> Etiny_le(2) by simp
      qed simp
      have "\<bar>dval (Dec c' Etiny)\<bar> = of_int m * (10::rat) powi Etiny" unfolding abs_dval c' ..
      then have "1 / 100 < \<bar>dval (Dec c' Etiny)\<bar> \<longleftrightarrow> 1 / 100 + 5 / 10 ^ 30 < \<bar>dval (Dec c e)\<bar>"
        using F(3,4) by simp
      then show ?thesis using r ic by blast
    qed
  qed
qed

lemma dval_scaled:
  "dval (Dec c e1) = of_int (c * 10 ^ nat (e1 - min e1 e2)) * 10 powi (min e1 e2)"
  unfolding dval_powi by (rule scale_powi[symmetric]) simp

lemma dval_scaled':
  "dval (Dec c e2) = of_int (c * 10 ^ nat (e2 - min e1 e2)) * 10 powi (min e1 e2)"
  unfolding dval_powi by (rule scale_powi[symmetric]) simp

lemma dec_less_iff: "dec_less (Dec c1 e1) (Dec c2 e2) \<longleftrightarrow> dval (Dec c1 e1) < dval (Dec c2 e2)"
proof -
  let ?e = "min e1 e2"
  have pos: "(0::rat) < 10 powi ?e" by simp
  have "dval (Dec c1 e1) < dval (Dec c2 e2) \<longleftrightarrow>
      (of_int (c1 * 10 ^ nat (e1 - ?e)) :: rat) * 10 powi ?e < of_int (c2 * 10 ^ nat (e2 - ?e)) * 10 powi ?e"
    by (simp only: dval_scaled[of c1 e1 e2] dval_scaled'[of c2 e2 e1])
  also have "\<dots> \<longleftrightarrow> (of_int (c1 * 10 ^ nat (e1 - ?e)) :: rat) < of_int (c2 * 10 ^ nat (e2 - ?e))"
    using pos by (simp only: mult_less_cancel_right_pos)
  also have "\<dots> \<longleftrightarrow> c1 * 10 ^ nat (e1 - ?e) < c2 * 10 ^ nat (e2 - ?e)"
    by (simp only: of_int_less_iff)
  finally show ?thesis by (simp only: dec_less.simps Let_def)
qed

lemma dval_diff:
  "dval (Dec (c1 * 10 ^ nat (e1 - min e1 e2) - c2 * 10 ^ nat (e2 - min e1 e2)) (min e1 e2))
   = dval (Dec c1 e1) - dval (Dec c2 e2)"
proof -
  let ?e = "min e1 e2"
  have "dval (Dec (c1 * 10 ^ nat (e1 - ?e) - c2 * 10 ^ nat (e2 - ?e)) ?e)
        = of_int (c1 * 10 ^ nat (e1 - ?e) - c2 * 10 ^ nat (e2 - ?e)) * 10 powi ?e"
    by (rule dval_powi)
  also have "\<dots> = of_int (c1 * 10 ^ nat (e1 - ?e)) * 10 powi ?e - of_int (c2 * 10 ^ nat (e2 - ?e)) * 10 powi ?e"
    by (simp only: of_int_diff left_diff_distrib)
  also have "\<dots> = dval (Dec c1 e1) - dval (Dec c2 e2)"
    by (simp only: dval_scaled[of c1 e1 e2] dval_scaled'[of c2 e2 e1])
  finally show ?thesis .
qed

lemma one_cent: "dval (Dec 1 (- 2)) = 1 / 100"
  by simp

lemma not_above_zero: "\<not> dec_less (Dec 1 (- 2)) (Dec 0 e)"
  unfolding dec_less_iff one_cent dval_powi by simp

lemma dec_abs_zero: "\<exists>e'. dec_abs (Dec 0 e) = Inr (Dec 0 e')"
  by simp

text \<open>The comparison of the program against the exact difference of the two decimals.\<close>

lemma amount_differs_threshold:
  assumes "\<bar>dval a - dval b\<bar> < 10 powi Emax"
  shows "amount_differs (Finite a) b = Inr (1 / 100 + 5 / 10 ^ 30 < \<bar>dval a - dval b\<bar>)"
proof (cases a; cases b)
  fix c1 e1 c2 e2 assume ab: "a = Dec c1 e1" "b = Dec c2 e2"
  define e where "e = min e1 e2"
  define c where "c = c1 * 10 ^ nat (e1 - e) - c2 * 10 ^ nat (e2 - e)"
  have v: "dval (Dec c e) = dval a - dval b" unfolding c_def e_def ab by (rule dval_diff)
  have s: "dec_sub a b = dec_fix (Dec c e)" unfolding ab c_def e_def by (simp add: Let_def)
  show ?thesis
  proof (cases "c = 0")
    case True
    then have z: "dval a - dval b = 0" using v dval_powi[of 0 e] by simp
    obtain e' where f: "dec_fix (Dec c e) = Inr (Dec 0 e')" using True by simp
    obtain e'' where g: "dec_abs (Dec 0 e') = Inr (Dec 0 e'')" using dec_abs_zero by blast
    have "amount_differs (Finite a) b = Inr (dec_less (Dec 1 (- 2)) (Dec 0 e''))"
      by (simp only: amount_differs.simps s f g sum.case)
    then show ?thesis using not_above_zero[of e''] z by simp
  next
    case False
    have "\<bar>dval (Dec c e)\<bar> < 10 powi Emax" using assms v by simp
    from dec_fix_threshold[OF False this] obtain c' e' where
      f: "dec_fix (Dec c e) = Inr (Dec c' e')" and ic: "c' = 0 \<or> in_context (Dec c' e')"
      and t: "1 / 100 < \<bar>dval (Dec c' e')\<bar> \<longleftrightarrow> 1 / 100 + 5 / 10 ^ 30 < \<bar>dval (Dec c e)\<bar>"
      by blast
    show ?thesis
    proof (cases "c' = 0")
      case True
      obtain e'' where g: "dec_abs (Dec c' e') = Inr (Dec 0 e'')"
        using True dec_abs_zero by blast
      have "amount_differs (Finite a) b = Inr (dec_less (Dec 1 (- 2)) (Dec 0 e''))"
        by (simp only: amount_differs.simps s f g sum.case)
      moreover have "\<not> 1 / 100 < \<bar>dval (Dec c' e')\<bar>" using True dval_powi[of 0 e'] by simp
      ultimately show ?thesis using not_above_zero[of e''] t v by simp
    next
      case nz: False
      then have "in_context (Dec c' e')" using ic by simp
      then have "in_context (Dec \<bar>c'\<bar> e')" by simp
      then have g: "dec_abs (Dec c' e') = Inr (Dec \<bar>c'\<bar> e')"
        using dec_fix_in_context by (simp only: dec_abs.simps)
      have "amount_differs (Finite a) b = Inr (dec_less (Dec 1 (- 2)) (Dec \<bar>c'\<bar> e'))"
        by (simp only: amount_differs.simps s f g sum.case)
      moreover have "dval (Dec \<bar>c'\<bar> e') = \<bar>dval (Dec c' e')\<bar>"
        by (simp only: abs_dval[of c' e'] dval_powi[of "\<bar>c'\<bar>" e'])
      then have "dec_less (Dec 1 (- 2)) (Dec \<bar>c'\<bar> e') \<longleftrightarrow> 1 / 100 < \<bar>dval (Dec c' e')\<bar>"
        by (simp only: dec_less_iff one_cent)
      ultimately show ?thesis using t v by simp
    qed
  qed
qed

lemma compare_amount_threshold:
  assumes "amount_decimal x = Some f" "Amount b = Some y" "float_truthy f" "decimal_truthy y"
    and "decimal_of_float_str f = Finite p" and "\<bar>dval p - dval y\<bar> < 10 powi Emax"
  shows "compare_amount x b =
           Inr (if 1 / 100 + 5 / 10 ^ 30 < \<bar>dval p - dval y\<bar>
                then [\<lparr>field = ''amount'', severity = ''ERROR'',
                       pdf_value = Float (float_of_decimal p),
                       bill_value = Float (float_of_decimal y)\<rparr>]
                else [])"
proof -
  have "compare_amount x b =
          (case amount_differs (Finite p) y of
             Inl err \<Rightarrow> Inl err
           | Inr differs \<Rightarrow>
               if differs then
                 Inr [\<lparr>field = ''amount'', severity = ''ERROR'',
                       pdf_value = Float (xfloat (Finite p)),
                       bill_value = Float (float_of_decimal y)\<rparr>]
               else Inr [])"
    using assms(1-5) by (simp add: compare_amount_def Let_def)
  then show ?thesis
    unfolding amount_differs_threshold[OF assms(6)] by (simp del: dval.simps)
qed

lemma powi_Emax_ge_1: "(1::rat) \<le> 10 powi Emax"
proof -
  have "0 \<le> Emax" by (simp add: Emax_def)
  then have "(10::rat) powi 0 \<le> 10 powi Emax" by (rule powi_mono)
  then show ?thesis by simp
qed

text \<open>
  C8, as the program has it. The extracted amount is a float, read back as the decimal
  \<open>p\<close> that \<^verbatim>\<open>str\<close> prints for it; the difference with the bill amount \<open>y\<close> is taken in
  the default decimal context, which rounds it to 28 significant digits, ties to even.
  So, for amounts present and not zero whose difference is below \<open>10 ^ Emax\<close>, the
  reconciliation reports an amount discrepancy, of severity ERROR, exactly when the exact
  difference of \<open>p\<close> and \<open>y\<close> exceeds one cent by more than half a unit of the 28th digit
  (\<open>5E-30\<close>), between the invoice-number and the date discrepancies. With 100.00
  extracted, a bill of 100.01 gives no discrepancy and a bill of 100.02 exactly one; with
  0.10 extracted, a bill of 0.09 gives none.
\<close>

theorem amount_tolerance:
  "(amount_decimal x = Some f \<and> Amount b = Some y \<and> float_truthy f \<and> decimal_truthy y
      \<and> decimal_of_float_str f = Finite p \<and> \<bar>dval p - dval y\<bar> < 10 powi Emax \<longrightarrow>
      compare_with_bill ld x b =
        (case compare_date ld x b of
           Inl err \<Rightarrow> Inl err
         | Inr date_issues \<Rightarrow>
             Inr (compare_invoice_number x b
                  @ (if 1 / 100 + 5 / 10 ^ 30 < \<bar>dval p - dval y\<bar>
                     then [\<lparr>field = ''amount'', severity = ''ERROR'',
                            pdf_value = Float (float_of_decimal p),
                            bill_value = Float (float_of_decimal y)\<rparr>]
                     else [])
                  @ date_issues)))
   \<and> compare_with_bill utc_date extracted_100
        \<lparr>BillNumber = None, Amount = Some (Dec 10001 (- 2)), BillDate = None\<rparr> = Inr []
   \<and> compare_with_bill utc_date extracted_100
        \<lparr>BillNumber = None, Amount = Some (Dec 10002 (- 2)), BillDate = None\<rparr>
        = Inr [\<lparr>field = ''amount'', severity = ''ERROR'',
                pdf_value = Float (float_of_decimal (Dec 10000 (- 2))),
                bill_value = Float (float_of_decimal (Dec 10002 (- 2)))\<rparr>]
   \<and> compare_with_bill utc_date
        (extracted_100\<lparr>amount_string := Some ''0.10'',
                        amount_decimal := Some (float_of_decimal (Dec 10 (- 2)))\<rparr>)
        \<lparr>BillNumber = None, Amount = Some (Dec 9 (- 2)), BillDate = None\<rparr> = Inr []"
proof (intro conjI impI)
  assume h: "amount_decimal x = Some f \<and> Amount b = Some y \<and> float_truthy f \<and> decimal_truthy y
      \<and> decimal_of_float_str f = Finite p \<and> \<bar>dval p - dval y\<bar> < 10 powi Emax"
  then have h1: "amount_decimal x = Some f" and h2: "Amount b = Some y"
    and h3: "float_truthy f" and h4: "decimal_truthy y"
    and h5: "decimal_of_float_str f = Finite p" and h6: "\<bar>dval p - dval y\<bar> < 10 powi Emax"
    by blast+
  have "compare_amount x b =
           Inr (if 1 / 100 + 5 / 10 ^ 30 < \<bar>dval p - dval y\<bar>
                then [\<lparr>field = ''amount'', severity = ''ERROR'',
                       pdf_value = Float (float_of_decimal p),
                       bill_value = Float (float_of_decimal y)\<rparr>]
                else [])"
    by (rule compare_amount_threshold[OF h1 h2 h3 h4 h5 h6])
  then show "compare_with_bill ld x b =
        (case compare_date ld x b of
           Inl err \<Rightarrow> Inl err
         | Inr date_issues \<Rightarrow>
             Inr (compare_invoice_number x b
                  @ (if 1 / 100 + 5 / 10 ^ 30 < \<bar>dval p - dval y\<bar>
                     then [\<lparr>field = ''amount'', severity = ''ERROR'',
                            pdf_value = Float (float_of_decimal p),
                            bill_value = Float (float_of_decimal y)\<rparr>]
                     else [])
                  @ date_issues))"
    by (simp only: compare_with_bill_def Let_def sum.case)
next
  show "compare_with_bill utc_date extracted_100
        \<lparr>BillNumber = None, Amount = Some (Dec 10001 (- 2)), BillDate = None\<rparr> = Inr []"
    by code_simp
next
  show "compare_with_bill utc_date extracted_100
        \<lparr>BillNumber = None, Amount = Some (Dec 10002 (- 2)), BillDate = None\<rparr>
        = Inr [\<lparr>field = ''amount'', severity = ''ERROR'',
                pdf_value = Float (float_of_decimal (Dec 10000 (- 2))),
                bill_value = Float (float_of_decimal (Dec 10002 (- 2)))\<rparr>]"
    by code_simp
next
  show "compare_with_bill utc_date
        (extracted_100\<lparr>amount_string := Some ''0.10'',
                        amount_decimal := Some (float_of_decimal (Dec 10 (- 2)))\<rparr>)
        \<lparr>BillNumber = None, Amount = Some (Dec 9 (- 2)), BillDate = None\<rparr> = Inr []"
    by code_simp
qed

theorem amount_tolerance_witness:
  "amount_decimal extracted_100 = Some (float_of_decimal (Dec 10000 (- 2)))
   \<and> float_truthy (float_of_decimal (Dec 10000 (- 2)))
   \<and> decimal_truthy (Dec 10002 (- 2))
   \<and> decimal_of_float_str (float_of_decimal (Dec 10000 (- 2))) = Finite (Dec 1 2)
   \<and> \<bar>dval (Dec 1 2) - dval (Dec 10002 (- 2))\<bar> < 10 powi Emax
   \<and> 1 / 100 + 5 / 10 ^ 30 < \<bar>dval (Dec 1 2) - dval (Dec 10002 (- 2))\<bar>
   \<and> compare_with_bill utc_date extracted_100
        \<lparr>BillNumber = Some ''INV-1'', Amount = Some (Dec 10002 (- 2)), BillDate = Some 1709769600\<rparr>
        = Inr [\<lparr>field = ''amount'', severity = ''ERROR'',
                pdf_value = Float (float_of_decimal (Dec 1 2)),
                bill_value = Float (float_of_decimal (Dec 10002 (- 2)))\<rparr>]"
proof -
  let ?b = "\<lparr>BillNumber = Some ''INV-1'', Amount = Some (Dec 10002 (- 2)), BillDate = Some 1709769600\<rparr>"
  have a: "amount_decimal extracted_100 = Some (float_of_decimal (Dec 10000 (- 2)))" by code_simp
  have y: "Amount ?b = Some (Dec 10002 (- 2))" by simp
  have t: "float_truthy (float_of_decimal (Dec 10000 (- 2)))" by code_simp
  have u: "decimal_truthy (Dec 10002 (- 2))" by simp
  have p: "decimal_of_float_str (float_of_decimal (Dec 10000 (- 2))) = Finite (Dec 1 2)" by code_simp
  have "\<bar>dval (Dec 1 2) - dval (Dec 10002 (- 2))\<bar> < 1" by simp
  then have bd: "\<bar>dval (Dec 1 2) - dval (Dec 10002 (- 2))\<bar> < 10 powi Emax"
    using powi_Emax_ge_1 by linarith
  have ex: "1 / 100 + 5 / 10 ^ 30 < \<bar>dval (Dec 1 2) - dval (Dec 10002 (- 2))\<bar>" by simp
  have d: "compare_date utc_date extracted_100 ?b = Inr []" by code_simp
  have n: "compare_invoice_number extracted_100 ?b = []" by code_simp
  from amount_tolerance[of extracted_100 "float_of_decimal (Dec 10000 (- 2))" ?b "Dec 10002 (- 2)" "Dec 1 2" utc_date]
  have "compare_with_bill utc_date extracted_100 ?b =
        (case compare_date utc_date extracted_100 ?b of
           Inl err \<Rightarrow> Inl err
         | Inr date_issues \<Rightarrow>
             Inr (compare_invoice_number extracted_100 ?b
                  @ (if 1 / 100 + 5 / 10 ^ 30 < \<bar>dval (Dec 1 2) - dval (Dec 10002 (- 2))\<bar>
                     then [\<lparr>field = ''amount'', severity = ''ERROR'',
                            pdf_value = Float (float_of_decimal (Dec 1 2)),
                            bill_value = Float (float_of_decimal (Dec 10002 (- 2)))\<rparr>]
                     else [])
                  @ date_issues))"
    using a y t u p bd by blast
  then have "compare_with_bill utc_date extracted_100 ?b
        = Inr [\<lparr>field = ''amount'', severity = ''ERROR'',
                pdf_value = Float (float_of_decimal (Dec 1 2)),
                bill_value = Float (float_of_decimal (Dec 10002 (- 2)))\<rparr>]"
    using ex by (simp only: d n sum.case if_True append_Nil append_Nil2)
  then show ?thesis using a t u p bd ex by blast
qed

text \<open>
  C8, as stated, puts the tolerance on the exact difference. With 0.1 extracted and a bill
  amount of 0.1100000000000000000000000000001 the exact difference exceeds one cent, by
  \<open>1E-31\<close>; the subtraction rounds it to one cent and no discrepancy is reported.
\<close>

theorem rounding_hides_excess:
  "decimal_of_float_str (float_of_decimal (Dec 1 (- 1))) = Finite (Dec 1 (- 1))
   \<and> 1 / 100 < \<bar>dval (Dec 1 (- 1)) - dval (Dec 1100000000000000000000000000001 (- 31))\<bar>
   \<and> compare_with_bill utc_date
        (extracted_100\<lparr>amount_string := Some ''0.1'',
                        amount_decimal := Some (float_of_decimal (Dec 1 (- 1)))\<rparr>)
        \<lparr>BillNumber = None, Amount = Some (Dec 1100000000000000000000000000001 (- 31)),
         BillDate = None\<rparr> = Inr []"
proof -
  have "decimal_of_float_str (float_of_decimal (Dec 1 (- 1))) = Finite (Dec 1 (- 1))" by code_simp
  moreover have "1 / 100 < \<bar>dval (Dec 1 (- 1)) - dval (Dec 1100000000000000000000000000001 (- 31))\<bar>"
    by simp
  moreover have "compare_with_bill utc_date
        (extracted_100\<lparr>amount_string := Some ''0.1'',
                        amount_decimal := Some (float_of_decimal (Dec 1 (- 1)))\<rparr>)
        \<lparr>BillNumber = None, Amount = Some (Dec 1100000000000000000000000000001 (- 31)),
         BillDate = None\<rparr> = Inr []" by code_simp
  ultimately show ?thesis by blast
qed

text \<open>
  The reconciliation returns a list whenever the amounts can be compared, the day
  difference can be computed and the bill date can be formatted.
\<close>

lemma compare_with_bill_returns:
  assumes "\<exists>amount_issues. compare_amount x b = Inr amount_issues"
    and "\<And>t u. date_timestamp x = Some t \<Longrightarrow> BillDate b = Some u \<Longrightarrow>
                 (\<exists>ymd. ld u = Inr ymd) \<and> (\<exists>d. diff_days t u = Inr d)"
  shows "\<exists>issues. compare_with_bill ld x b = Inr issues"
proof -
  have "\<exists>ds. compare_date ld x b = Inr ds"
  proof (cases "date_timestamp x")
    case None
    then show ?thesis by (simp add: compare_date_def)
  next
    case (Some t)
    show ?thesis
    proof (cases "BillDate b")
      case None
      then show ?thesis using Some by (simp add: compare_date_def)
    next
      case (Some u)
      from assms(2)[OF \<open>date_timestamp x = Some t\<close> Some]
      obtain d ymd where "diff_days t u = Inr d" "ld u = Inr ymd" by auto
      then show ?thesis using Some \<open>date_timestamp x = Some t\<close>
        by (simp add: compare_date_def)
    qed
  qed
  then show ?thesis using assms(1) by (auto simp: compare_with_bill_def Let_def)
qed

text \<open>
  C9. The extractors and the reconciliation should never raise. The extractors do not;
  the reconciliation formats the bill date with \<^verbatim>\<open>datetime.fromtimestamp\<close> outside any
  handler, and for a bill date beyond the year 9999 (one given in milliseconds, say) that
  differs from the extracted date the exception leaves the function.
\<close>

theorem compare_with_bill_raises:
  "compare_with_bill utc_date
     ((empty_result ''a.pdf'')\<lparr>date_string := Some ''2024-03-07'', date_timestamp := Some 1709769600\<rparr>)
     \<lparr>BillNumber = None, Amount = None, BillDate = Some 1000000000000\<rparr> = Inl ValueError"
  by code_simp

text \<open>A field absent on either side is skipped, and absent extracted fields do not fail.\<close>

lemma compare_with_bill_skips_absent:
  "(invoice_number x = None \<or> BillNumber b = None \<longrightarrow> compare_invoice_number x b = [])
   \<and> (amount_decimal x = None \<or> Amount b = None \<longrightarrow> compare_amount x b = Inr [])
   \<and> (date_timestamp x = None \<or> BillDate b = None \<longrightarrow> compare_date ld x b = Inr [])
   \<and> (amount_decimal x = None \<and> date_timestamp x = None \<longrightarrow>
        compare_with_bill ld x b = Inr (compare_invoice_number x b))"
  by (auto simp: compare_invoice_number_def compare_amount_def compare_date_def
                 compare_with_bill_def Let_def split: option.splits)

text \<open>
  C4. A field should be compared exactly when both sides have a value for it. The three
  guards of the program test the truth of the values, not their presence, so a value that
  is present but zero (or an empty bill number) is skipped like an absent one: an
  extracted amount of 100.00 against a bill amount of 0.00 gives no discrepancy, though
  they differ by more than a cent, and an extracted timestamp of 0 against a bill date ten
  days later gives none either.
\<close>

theorem zero_values_skipped:
  "amount_decimal extracted_100 = Some (float_of_decimal (Dec 10000 (- 2)))
   \<and> decimal_of_float_str (float_of_decimal (Dec 10000 (- 2))) = Finite (Dec 1 2)
   \<and> 1 / 100 < \<bar>dval (Dec 1 2) - dval (Dec 0 (- 2))\<bar>
   \<and> compare_with_bill utc_date extracted_100
        \<lparr>BillNumber = None, Amount = Some (Dec 0 (- 2)), BillDate = None\<rparr> = Inr []
   \<and> 86400 < \<bar>0 - (864000::int)\<bar>
   \<and> compare_with_bill utc_date
        ((empty_result ''a.pdf'')\<lparr>date_string := Some ''01/01/1970'', date_timestamp := Some 0\<rparr>)
        \<lparr>BillNumber = None, Amount = None, BillDate = Some 864000\<rparr> = Inr []"
proof -
  have "amount_decimal extracted_100 = Some (float_of_decimal (Dec 10000 (- 2)))
   \<and> decimal_of_float_str (float_of_decimal (Dec 10000 (- 2))) = Finite (Dec 1 2)
   \<and> compare_with_bill utc_date extracted_100
        \<lparr>BillNumber = None, Amount = Some (Dec 0 (- 2)), BillDate = None\<rparr> = Inr []
   \<and> compare_with_bill utc_date
        ((empty_result ''a.pdf'')\<lparr>date_string := Some ''01/01/1970'', date_timestamp := Some 0\<rparr>)
        \<lparr>BillNumber = None, Amount = None, BillDate = Some 864000\<rparr> = Inr []"
    by code_simp
  moreover have "1 / 100 < \<bar>dval (Dec 1 2) - dval (Dec 0 (- 2))\<bar>" by simp
  moreover have "86400 < \<bar>0 - (864000::int)\<bar>" by simp
  ultimately show ?thesis by blast
qed

end
